theory Spec2Isabelle
  imports Main
begin

section \<open>Python values, errors and dictionaries\<close>

text \<open>
  The module is Python 2: a \<open>str\<close> is a byte string, modelled as \<open>string\<close>.
  Header values are dynamically typed: \<open>Connection.send\<close> stores the integer
  \<open>msg_id\<close> under \<open>receipt\<close>, \<open>serialize\<close> stores \<open>len(body)\<close> under
  \<open>content-length\<close>, and the parser stores the strings cut out of the wire bytes.
  \<open>pyval\<close> keeps the three kinds of value apart, as Python's \<open>==\<close> does
  (\<open>'0' == 0\<close> is false).
\<close>

datatype pyval = PyNone | PyInt int | PyStr string

text \<open>
  Every exception the modelled code can raise.
  \<^item> \<open>InvalidCommand c\<close>: the \<open>ValueError\<close> of \<open>Frame.__new__\<close>;
  \<^item> \<open>NotNullTerminated\<close>: \<open>ValueError('Frame not terminated with null byte.')\<close>;
  \<^item> \<open>ExcessData\<close>, \<open>IncompleteFrame n\<close>: the two \<open>ValueError\<close>s of \<open>Frame.parse\<close>;
  \<^item> \<open>UnexpectedFrame\<close>: the \<open>ValueError\<close> of \<open>_reconnect\<close>;
  \<^item> \<open>AlreadyStarted\<close>: the \<open>ValueError\<close> of \<open>Connection.start\<close>;
  \<^item> \<open>TypeError\<close>, \<open>IndexError\<close>, \<open>KeyError\<close>, \<open>StopIteration\<close>,
    \<open>AttributeError\<close>: the built-in ones;
  \<^item> \<open>SocketError\<close>: \<open>socket.error\<close>.
\<close>

datatype error =
    InvalidCommand string
  | NotNullTerminated
  | ExcessData
  | IncompleteFrame nat
  | UnexpectedFrame
  | AlreadyStarted
  | TypeError
  | IndexError
  | KeyError
  | StopIteration
  | AttributeError
  | SocketError

abbreviation NL :: char where "NL \<equiv> CHR 0x0A"
abbreviation NUL :: char where "NUL \<equiv> CHR 0x00"

text \<open>
  A header dictionary is an association list with distinct keys, in the dictionary's
  iteration order. Python 2 leaves that order to the implementation; the model takes
  the order of insertion: storing under a key that is present replaces the value in
  place, a new key goes to the end. Equality of dictionaries (\<open>dict_eq\<close> below) does
  not depend on the order.
\<close>

type_synonym hdrs = "(string \<times> pyval) list"

fun dict_set :: "hdrs \<Rightarrow> string \<Rightarrow> pyval \<Rightarrow> hdrs" where
  "dict_set [] k v = [(k, v)]"
| "dict_set ((k', v') # d) k v = (if k' = k then (k, v) # d else (k', v') # dict_set d k v)"

definition dict_contains :: "hdrs \<Rightarrow> string \<Rightarrow> bool" where
  "dict_contains d k = (map_of d k \<noteq> None)"

text \<open>\<open>d.get(k)\<close>: the value, or \<open>None\<close>.\<close>

definition dict_get :: "hdrs \<Rightarrow> string \<Rightarrow> pyval" where
  "dict_get d k = (case map_of d k of None \<Rightarrow> PyNone | Some v \<Rightarrow> v)"

text \<open>\<open>d[k]\<close>: the value, or \<open>KeyError\<close>.\<close>

definition dict_item :: "hdrs \<Rightarrow> string \<Rightarrow> error + pyval" where
  "dict_item d k = (case map_of d k of None \<Rightarrow> Inl KeyError | Some v \<Rightarrow> Inr v)"

section \<open>String operations of Python used by the codec\<close>

fun str_of_nat :: "nat \<Rightarrow> string" where
  "str_of_nat n =
     (if n < 10 then [''0123456789'' ! n]
      else str_of_nat (n div 10) @ [''0123456789'' ! (n mod 10)])"

definition str_of_int :: "int \<Rightarrow> string" where
  "str_of_int i = (if i < 0 then CHR ''-'' # str_of_nat (nat (- i)) else str_of_nat (nat i))"

text \<open>What \<open>'{0}'.format(v)\<close> renders.\<close>

fun py_format :: "pyval \<Rightarrow> string" where
  "py_format PyNone = ''None''"
| "py_format (PyInt i) = str_of_int i"
| "py_format (PyStr s) = s"

text \<open>\<open>sep.join(xs)\<close>.\<close>

fun py_join :: "string \<Rightarrow> string list \<Rightarrow> string" where
  "py_join sep [] = []"
| "py_join sep [x] = x"
| "py_join sep (x # y # ys) = x @ sep @ py_join sep (y # ys)"

fun is_prefix :: "string \<Rightarrow> string \<Rightarrow> bool" where
  "is_prefix [] s = True"
| "is_prefix (p # ps) [] = False"
| "is_prefix (p # ps) (c # cs) = (p = c \<and> is_prefix ps cs)"

text \<open>The index of the first occurrence of \<open>sep\<close> in \<open>s\<close>, as \<open>s.find(sep)\<close>.\<close>

fun find_sub :: "string \<Rightarrow> string \<Rightarrow> nat option" where
  "find_sub sep [] = (if sep = [] then Some 0 else None)"
| "find_sub sep (c # cs) =
     (if is_prefix sep (c # cs) then Some 0 else map_option Suc (find_sub sep cs))"

text \<open>\<open>sep in s\<close>.\<close>

definition py_in :: "string \<Rightarrow> string \<Rightarrow> bool" where
  "py_in sep s = (find_sub sep s \<noteq> None)"

text \<open>\<open>s.partition(sep)\<close>: the part before the first \<open>sep\<close>, \<open>sep\<close>, the part after;
  \<open>(s, '', '')\<close> when \<open>sep\<close> does not occur.\<close>

definition py_partition :: "string \<Rightarrow> string \<Rightarrow> string \<times> string \<times> string" where
  "py_partition s sep =
     (case find_sub sep s of
        None \<Rightarrow> (s, [], [])
      | Some i \<Rightarrow> (take i s, sep, drop (i + length sep) s))"

text \<open>\<open>s.split(c)\<close> for a one-character separator: never an empty list.\<close>

fun py_split :: "char \<Rightarrow> string \<Rightarrow> string list" where
  "py_split c [] = [[]]"
| "py_split c (x # xs) =
     (if x = c then [] # py_split c xs
      else (case py_split c xs of [] \<Rightarrow> [[x]] | y # ys \<Rightarrow> (x # y) # ys))"

text \<open>\<open>s.lstrip('\n')\<close>.\<close>

definition py_lstrip_nl :: "string \<Rightarrow> string" where
  "py_lstrip_nl s = dropWhile (\<lambda>c. c = NL) s"

text \<open>\<open>s[:n]\<close> and \<open>s[n:]\<close> for any integer \<open>n\<close>: a negative bound counts from the end.\<close>

definition py_slice_to :: "string \<Rightarrow> int \<Rightarrow> string" where
  "py_slice_to s n = (if n < 0 then take (nat (int (length s) + n)) s else take (nat n) s)"

definition py_slice_from :: "string \<Rightarrow> int \<Rightarrow> string" where
  "py_slice_from s n = (if n < 0 then drop (nat (int (length s) + n)) s else drop (nat n) s)"

text \<open>\<open>v + 1\<close>: defined on integers; a string and an integer do not add.\<close>

fun py_add_one :: "pyval \<Rightarrow> error + int" where
  "py_add_one (PyInt i) = Inr (i + 1)"
| "py_add_one (PyStr s) = Inl TypeError"
| "py_add_one PyNone = Inl TypeError"

section \<open>Frame\<close>

definition CLIENT_CMDS :: "string list" where
  "CLIENT_CMDS = [''SEND'', ''SUBSCRIBE'', ''UNSUBSCRIBE'', ''BEGIN'', ''COMMIT'',
     ''ABORT'', ''ACK'', ''NACK'', ''DISCONNECT'', ''CONNECT'', ''STOMP'']"

definition SERVER_CMDS :: "string list" where
  "SERVER_CMDS = [''CONNECTED'', ''MESSAGE'', ''RECEIPT'', ''ERROR'']"

definition ALL_CMDS :: "string list" where
  "ALL_CMDS = CLIENT_CMDS @ SERVER_CMDS"

record frame =
  command :: string
  headers :: hdrs
  body :: string

text \<open>
  \<open>Frame.__new__\<close>: the command is checked before anything else, and nothing else is
  checked. (The one call that passes \<open>None\<close> for the headers passes the command
  \<open>'HEARTBEAT'\<close>; the model passes the empty dictionary there.)
\<close>

definition Frame_new :: "string \<Rightarrow> hdrs \<Rightarrow> string \<Rightarrow> error + frame" where
  "Frame_new c h b =
     (if c \<notin> set ALL_CMDS then Inl (InvalidCommand c)
      else Inr \<lparr>command = c, headers = h, body = b\<rparr>)"

text \<open>
  \<open>Frame.serialize\<close>. It stores \<open>content-length\<close> in the frame's own header
  dictionary, so the model returns the frame after the call beside the bytes.
\<close>

definition header_line :: "string \<times> pyval \<Rightarrow> string" where
  "header_line kv = fst kv @ '':'' @ py_format (snd kv)"

definition serialize :: "frame \<Rightarrow> string \<times> frame" where
  "serialize f =
     (let h = (if body f \<noteq> [] \<and> \<not> dict_contains (headers f) ''content-length''
               then dict_set (headers f) ''content-length'' (PyInt (int (length (body f))))
               else headers f)
      in (command f @ [NL] @ py_join [NL] (map header_line h) @ [NL, NL] @ body f @ [NUL],
          f\<lparr>headers := h\<rparr>))"

text \<open>\<open>==\<close> on dictionaries (the same keys with the same values, in any order) and on
  frames (tuple equality).\<close>

definition dict_eq :: "hdrs \<Rightarrow> hdrs \<Rightarrow> bool" where
  "dict_eq d e = list_all (\<lambda>k. map_of d k = map_of e k) (map fst d @ map fst e)"

definition frame_eq :: "frame \<Rightarrow> frame \<Rightarrow> bool" where
  "frame_eq f g = (command f = command g \<and> dict_eq (headers f) (headers g) \<and> body f = body g)"

section \<open>The incremental parser\<close>

text \<open>
  \<open>Frame._parse_iter\<close> is a generator. Its state between two \<open>send\<close> calls is the
  \<open>yield\<close> it is suspended at, with the local variables that are live there:
  \<^item> \<open>Start\<close>: the \<open>yield\<close> of the leading-newline loop;
  \<^item> \<open>AfterHeartbeat data consumed\<close>: the \<open>yield\<close> of the heartbeat check;
  \<^item> \<open>InCommand sofar\<close>: the \<open>yield\<close> of the command loop;
  \<^item> \<open>InHeaders command sofar\<close>: the \<open>yield\<close> of the header loop;
  \<^item> \<open>InBodyLen command headers sofar bytes_to_go\<close>: the \<open>yield\<close> of the
    content-length loop;
  \<^item> \<open>InBodyNul command headers sofar\<close>: the \<open>yield\<close> of the NUL-terminated loop;
  \<^item> \<open>Finished\<close>: the \<open>yield\<close> that delivered the frame; the next \<open>send\<close> raises
    \<open>StopIteration\<close>.
  One \<open>send(chunk)\<close> runs from that \<open>yield\<close> to the next one and gives the yielded
  pair \<open>(frame or None, consumed)\<close>, or the exception raised on the way.
\<close>

datatype pstate =
    Start
  | AfterHeartbeat string nat
  | InCommand "string list"
  | InHeaders string "string list"
  | InBodyLen string hdrs "string list" int
  | InBodyNul string hdrs "string list"
  | Finished

type_synonym presult = "error + (pstate \<times> frame option \<times> nat)"

text \<open>The last three lines before \<open>StopIteration\<close>: join the body, build the frame, yield it.\<close>

definition finish_frame :: "string \<Rightarrow> hdrs \<Rightarrow> string list \<Rightarrow> nat \<Rightarrow> presult" where
  "finish_frame cmd h sofar consumed =
     (case Frame_new cmd h (concat sofar) of
        Inl e \<Rightarrow> Inl e
      | Inr f \<Rightarrow> Inr (Finished, Some f, consumed))"

text \<open>The \<open>else\<close> branch of the body: accumulate until a chunk holds a NUL.\<close>

definition body_nul :: "string \<Rightarrow> hdrs \<Rightarrow> string list \<Rightarrow> string \<Rightarrow> nat \<Rightarrow> presult" where
  "body_nul cmd h sofar data consumed =
     (if \<not> py_in [NUL] data
      then Inr (InBodyNul cmd h (sofar @ [data]), None, consumed + length data)
      else (case py_partition data [NUL] of
              (end_of_body, sep, leftover) \<Rightarrow>
                finish_frame cmd h (sofar @ [end_of_body])
                  (consumed + (length end_of_body + length sep))))"

text \<open>The content-length loop and the lines after it.\<close>

definition body_len :: "string \<Rightarrow> hdrs \<Rightarrow> string list \<Rightarrow> string \<Rightarrow> nat \<Rightarrow> int \<Rightarrow> presult" where
  "body_len cmd h sofar data consumed bytes_to_go =
     (if int (length data) - int consumed < bytes_to_go
      then Inr (InBodyLen cmd h (sofar @ [data]) (bytes_to_go - int (length data)),
                None, consumed + length data)
      else (let end_of_body = py_slice_to data bytes_to_go;
                leftover = py_slice_from data bytes_to_go
            in if end_of_body = [] then Inl IndexError
               else if last end_of_body \<noteq> NUL then Inl NotNullTerminated
               else finish_frame cmd h (sofar @ [butlast end_of_body])
                      (consumed + length end_of_body)))"

text \<open>\<open># parse body\<close>: the choice between the two loops.\<close>

definition parse_body :: "string \<Rightarrow> hdrs \<Rightarrow> string \<Rightarrow> nat \<Rightarrow> presult" where
  "parse_body cmd h data consumed =
     (if dict_contains h ''content-length''
      then (case py_add_one (dict_get h ''content-length'') of
              Inl e \<Rightarrow> Inl e
            | Inr bytes_to_go \<Rightarrow> body_len cmd h [] data consumed bytes_to_go)
      else body_nul cmd h [] data consumed)"

text \<open>The \<open>for\<close> loop over the header lines.\<close>

definition store_header :: "string \<Rightarrow> hdrs \<Rightarrow> hdrs" where
  "store_header cur_header h =
     (case py_partition cur_header '':'' of (key, sep, val) \<Rightarrow> dict_set h key (PyStr val))"

definition parse_header_block :: "string \<Rightarrow> hdrs" where
  "parse_header_block header_str = fold store_header (py_split NL header_str) []"

text \<open>\<open># parse headers\<close>: the loop tests the chunk just received, the partition after it
  works on everything accumulated.\<close>

definition headers_phase :: "string \<Rightarrow> string list \<Rightarrow> string \<Rightarrow> nat \<Rightarrow> presult" where
  "headers_phase cmd sofar data consumed =
     (if \<not> py_in [NL, NL] data
      then Inr (InHeaders cmd (sofar @ [data]), None, consumed + length data)
      else (case py_partition (concat (sofar @ [data])) [NL, NL] of
              (header_str, sep, rest) \<Rightarrow>
                parse_body cmd (parse_header_block header_str) rest
                  (consumed + (length header_str + length sep))))"

text \<open>\<open># parse command\<close>.\<close>

definition command_phase :: "string list \<Rightarrow> string \<Rightarrow> nat \<Rightarrow> presult" where
  "command_phase sofar data consumed =
     (if \<not> py_in [NL] data
      then Inr (InCommand (sofar @ [data]), None, consumed + length data)
      else (case py_partition data [NL] of
              (end, sep, rest) \<Rightarrow>
                headers_phase (concat (sofar @ [end])) [] rest
                  (consumed + (length end + length sep))))"

text \<open>\<open># clear between-message newlines\<close> and \<open># check for heartbeat\<close>.\<close>

definition start_phase :: "string \<Rightarrow> presult" where
  "start_phase chunk =
     (let consumed = length chunk - length (py_lstrip_nl chunk);
          data = drop consumed chunk
      in if data = [] then Inr (Start, None, consumed)
         else if hd data = NL
         then (case Frame_new ''HEARTBEAT'' [] [] of
                 Inl e \<Rightarrow> Inl e
               | Inr f \<Rightarrow> Inr (AfterHeartbeat data consumed, Some f, consumed + 1))
         else command_phase [] data consumed)"

text \<open>\<open>parser.send(chunk)\<close>. Each loop sets \<open>consumed = 0\<close> after its \<open>yield\<close>.\<close>

fun feed :: "pstate \<Rightarrow> string \<Rightarrow> presult" where
  "feed Start chunk = start_phase chunk"
| "feed (AfterHeartbeat data consumed) chunk = command_phase [] data consumed"
| "feed (InCommand sofar) chunk = command_phase sofar chunk 0"
| "feed (InHeaders cmd sofar) chunk = headers_phase cmd sofar chunk 0"
| "feed (InBodyLen cmd h sofar bytes_to_go) chunk = body_len cmd h sofar chunk 0 bytes_to_go"
| "feed (InBodyNul cmd h sofar) chunk = body_nul cmd h sofar chunk 0"
| "feed Finished chunk = Inl StopIteration"

text \<open>The header dictionary a suspended parser holds, if it has parsed one.\<close>

fun pstate_headers :: "pstate \<Rightarrow> hdrs" where
  "pstate_headers (InBodyLen cmd h sofar bytes_to_go) = h"
| "pstate_headers (InBodyNul cmd h sofar) = h"
| "pstate_headers st = []"

text \<open>\<open>Frame.parse\<close>: \<open>parser.next()\<close> runs to the first \<open>yield\<close>, then one \<open>send\<close>.\<close>

definition parse :: "string \<Rightarrow> error + frame" where
  "parse data =
     (case feed Start data of
        Inl e \<Rightarrow> Inl e
      | Inr (st, fr, bytes_consumed) \<Rightarrow>
          if bytes_consumed \<noteq> length data then Inl ExcessData
          else (case fr of None \<Rightarrow> Inl (IncompleteFrame bytes_consumed) | Some f \<Rightarrow> Inr f))"

text \<open>
  A caller that feeds a list of chunks one at a time, as \<open>parse_from_socket\<close> does with
  what it reads: it stops at the first frame, and keeps the consumed-byte count
  reported after each chunk it fed.
\<close>

fun feed_chunks :: "pstate \<Rightarrow> string list \<Rightarrow> error + (frame option \<times> nat list)" where
  "feed_chunks st [] = Inr (None, [])"
| "feed_chunks st (c # cs) =
     (case feed st c of
        Inl e \<Rightarrow> Inl e
      | Inr (st', Some f, n) \<Rightarrow> Inr (Some f, [n])
      | Inr (st', None, n) \<Rightarrow>
          (case feed_chunks st' cs of
             Inl e \<Rightarrow> Inl e
           | Inr (fr, ns) \<Rightarrow> Inr (fr, n # ns)))"

section \<open>The socket\<close>

text \<open>
  The transport is outside the module; the model keeps what \<open>parse_from_socket\<close> can
  observe of it. \<open>rbuf\<close> holds the bytes received and not yet consumed. \<open>net\<close> is
  what the network does from now on, one event for each \<open>recv\<close> call: \<open>Data d\<close> means
  the bytes \<open>d\<close> (possibly none) arrive before the call looks at the buffer, \<open>Reset\<close>
  means the connection fails. An exhausted \<open>net\<close> is a peer that has closed: \<open>recv\<close>
  on an empty buffer then returns the empty string. \<open>log\<close> records every \<open>recv\<close>
  call made on the socket, with what it returned.
\<close>

datatype net_event = Data string | Reset

datatype recv_call =
    Peeked string \<comment> \<open>\<open>recv(4096, MSG_PEEK)\<close> and the bytes it returned\<close>
  | Discarded nat string \<comment> \<open>\<open>recv(n)\<close> and the bytes it removed\<close>

record socket =
  rbuf :: string
  net :: "net_event list"
  log :: "recv_call list"

text \<open>A blocking read on an empty buffer waits for the first event that is not empty.\<close>

fun wait_readable :: "net_event list \<Rightarrow> (error + string) \<times> net_event list" where
  "wait_readable [] = (Inr [], [])"
| "wait_readable (Data d # evs) = (if d = [] then wait_readable evs else (Inr d, evs))"
| "wait_readable (Reset # evs) = (Inl SocketError, evs)"

text \<open>What the buffer holds when a \<open>recv\<close> call returns, and the events left.\<close>

definition arrivals :: "socket \<Rightarrow> (error + string) \<times> net_event list" where
  "arrivals s =
     (case net s of
        [] \<Rightarrow> (Inr (rbuf s), [])
      | Reset # evs \<Rightarrow> (Inl SocketError, evs)
      | Data d # evs \<Rightarrow>
          if rbuf s @ d \<noteq> [] then (Inr (rbuf s @ d), evs) else wait_readable evs)"

text \<open>\<open>sock.recv(n, socket.MSG_PEEK)\<close>: up to \<open>n\<close> bytes, left in the buffer.\<close>

definition recv_peek :: "socket \<Rightarrow> nat \<Rightarrow> (error + string) \<times> socket" where
  "recv_peek s n =
     (case arrivals s of
        (Inl e, evs) \<Rightarrow> (Inl e, s\<lparr>net := evs\<rparr>)
      | (Inr buf, evs) \<Rightarrow>
          (Inr (take n buf), s\<lparr>rbuf := buf, net := evs, log := log s @ [Peeked (take n buf)]\<rparr>))"

text \<open>\<open>sock.recv(n)\<close>: up to \<open>n\<close> bytes, removed from the buffer; \<open>recv(0)\<close> returns at once.\<close>

definition recv :: "socket \<Rightarrow> nat \<Rightarrow> (error + string) \<times> socket" where
  "recv s n =
     (if n = 0 then (Inr [], s\<lparr>log := log s @ [Discarded 0 []]\<rparr>)
      else (case arrivals s of
              (Inl e, evs) \<Rightarrow> (Inl e, s\<lparr>net := evs\<rparr>)
            | (Inr buf, evs) \<Rightarrow>
                (Inr (take n buf),
                 s\<lparr>rbuf := drop n buf, net := evs,
                   log := log s @ [Discarded n (take n buf)]\<rparr>)))"

text \<open>
  \<open>Frame.parse_from_socket\<close>. The loop has no bound: on a closed socket it peeks the
  empty string for ever. \<open>None\<close> is the call that never returns; otherwise the result
  is the frame or the exception, and the socket as the call leaves it.
\<close>

partial_function (option) pfs_loop ::
  "pstate \<Rightarrow> socket \<Rightarrow> ((error + frame) \<times> socket) option" where
  "pfs_loop st s =
     (case recv_peek s 4096 of
        (Inl e, s1) \<Rightarrow> Some (Inl e, s1)
      | (Inr cur_data, s1) \<Rightarrow>
          (case feed st cur_data of
             Inl e \<Rightarrow> Some (Inl e, s1)
           | Inr (st', Some f, bytes_consumed) \<Rightarrow> Some (Inr f, s1)
           | Inr (st', None, bytes_consumed) \<Rightarrow>
               (case recv s1 bytes_consumed of
                  (Inl e, s2) \<Rightarrow> Some (Inl e, s2)
                | (Inr thrown_away, s2) \<Rightarrow> pfs_loop st' s2)))"

declare pfs_loop.simps [code]

definition parse_from_socket :: "socket \<Rightarrow> ((error + frame) \<times> socket) option" where
  "parse_from_socket s = pfs_loop Start s"

text \<open>
  The bytes the socket still has to give: the buffer, then everything that arrives.
\<close>

fun event_bytes :: "net_event \<Rightarrow> string" where
  "event_bytes (Data d) = d"
| "event_bytes Reset = []"

definition stream_of :: "socket \<Rightarrow> string" where
  "stream_of s = rbuf s @ concat (map event_bytes (net s))"

fun discarded_bytes :: "recv_call \<Rightarrow> string" where
  "discarded_bytes (Peeked c) = []"
| "discarded_bytes (Discarded n b) = b"

text \<open>
  A sequence of \<open>recv\<close> calls read against the parser: every peek but the last leaves
  the frame incomplete and is followed by a \<open>recv\<close> of exactly the count the parser
  reported for it; the last peek completes the frame \<open>f\<close> and nothing follows it.
\<close>

fun replay :: "pstate \<Rightarrow> recv_call list \<Rightarrow> frame \<Rightarrow> bool" where
  "replay st [Peeked c] f =
     (case feed st c of Inr (st', Some g, n) \<Rightarrow> g = f | _ \<Rightarrow> False)"
| "replay st (Peeked c # Discarded n b # calls) f =
     (case feed st c of
        Inr (st', None, m) \<Rightarrow> m = n \<and> length b \<le> n \<and> replay st' calls f
      | _ \<Rightarrow> False)"
| "replay st calls f = False"

section \<open>The connection\<close>

text \<open>
  A greenlet is modelled by where it stands: \<open>Waiting\<close> in the \<open>Event.wait()\<close> of its
  loop, \<open>Running\<close> at the test of its \<open>while\<close> loop, \<open>Exited\<close> after the loop, or
  \<open>Died e\<close> when an exception that the loop does not catch ended it.
\<close>

datatype glet = Waiting | Running | Exited | Died error

text \<open>
  The fields of \<open>Connection\<close>. The three handlers are callables of the caller; a call
  would act on the caller's world \<open>'w\<close>. \<open>send_q\<close> holds references to frame objects
  and \<open>frames\<close> holds the objects: \<open>serialize\<close> writes into the header dictionary of
  the object it is called on, and the queue keeps the object, not a copy. A
  reference is an index into \<open>frames\<close>.
\<close>

record 'w connection =
  protected :: bool
  address :: string
  login :: string
  passcode :: string
  on_message :: "(frame \<Rightarrow> 'w \<Rightarrow> 'w) option"
  on_reciept :: "(frame \<Rightarrow> 'w \<Rightarrow> 'w) option"
  on_error :: "(frame \<Rightarrow> 'w \<Rightarrow> 'w) option"
  send_q :: "nat list"
  frames :: "frame list"
  sock :: "socket option"
  sock_ready :: bool
  sock_broken :: bool
  stopping :: bool
  started :: bool
  send_glet :: "glet option"
  recv_glet :: "glet option"
  sock_glet :: "glet option"
  session :: pyval
  server_info :: pyval
  msg_id :: int
  sub_id :: int
  no_receipt :: "pyval set"

text \<open>The four statements that touch the two events.\<close>

datatype flag_stmt = BrokenSet | BrokenClear | ReadySet | ReadyClear

fun exec_stmt :: "flag_stmt \<Rightarrow> 'w connection \<Rightarrow> 'w connection" where
  "exec_stmt BrokenSet c = c\<lparr>sock_broken := True\<rparr>"
| "exec_stmt BrokenClear c = c\<lparr>sock_broken := False\<rparr>"
| "exec_stmt ReadySet c = c\<lparr>sock_ready := True\<rparr>"
| "exec_stmt ReadyClear c = c\<lparr>sock_ready := False\<rparr>"

text \<open>The event statements of \<open>start\<close>, of the two \<open>except socket.error\<close> handlers, and
  of the end of \<open>_reconnect\<close>, in the order the code runs them.\<close>

definition start_stmts :: "flag_stmt list" where
  "start_stmts = [BrokenSet, ReadyClear]"

definition socket_error_stmts :: "flag_stmt list" where
  "socket_error_stmts = [ReadyClear, BrokenSet]"

definition reconnected_stmts :: "flag_stmt list" where
  "reconnected_stmts = [BrokenClear, ReadySet]"

text \<open>Running statements one after the other; \<open>states_after\<close> lists the state after
  each statement.\<close>

definition exec_stmts :: "flag_stmt list \<Rightarrow> 'w connection \<Rightarrow> 'w connection" where
  "exec_stmts stmts c = fold exec_stmt stmts c"

fun states_after :: "flag_stmt list \<Rightarrow> 'w connection \<Rightarrow> 'w connection list" where
  "states_after [] c = []"
| "states_after (x # xs) c = exec_stmt x c # states_after xs (exec_stmt x c)"

text \<open>\<open>send_q.put(frame)\<close> for a new frame object, and for an object that exists.\<close>

definition put_new :: "'w connection \<Rightarrow> frame \<Rightarrow> 'w connection" where
  "put_new c f = c\<lparr>send_q := send_q c @ [length (frames c)], frames := frames c @ [f]\<rparr>"

definition send_frame :: "'w connection \<Rightarrow> nat \<Rightarrow> 'w connection" where
  "send_frame c r = c\<lparr>send_q := send_q c @ [r]\<rparr>"

text \<open>\<open>Connection.start\<close>. The sender and the receiver begin in \<open>sock_ready.wait()\<close>, the
  socket fixer at the test of its loop.\<close>

definition start :: "'w connection \<Rightarrow> error + 'w connection" where
  "start c =
     (if started c then Inl AlreadyStarted
      else Inr ((exec_stmts start_stmts (c\<lparr>started := True\<rparr>))
                 \<lparr>send_glet := Some Waiting, recv_glet := Some Waiting,
                  sock_glet := Some Running\<rparr>))"

definition stop :: "'w connection \<Rightarrow> 'w connection" where
  "stop c = c\<lparr>stopping := True\<rparr>"

text \<open>\<open>Connection.__init__\<close>.\<close>

definition Connection_new ::
  "string \<Rightarrow> string \<Rightarrow> string \<Rightarrow> (frame \<Rightarrow> 'w \<Rightarrow> 'w) option \<Rightarrow> (frame \<Rightarrow> 'w \<Rightarrow> 'w) option \<Rightarrow>
   (frame \<Rightarrow> 'w \<Rightarrow> 'w) option \<Rightarrow> bool \<Rightarrow> error + 'w connection" where
  "Connection_new addr lg pc on_msg on_rcpt on_err prot =
     start \<lparr>protected = prot, address = addr, login = lg, passcode = pc,
            on_message = on_msg, on_reciept = on_rcpt, on_error = on_err,
            send_q = [], frames = [], sock = None,
            sock_ready = False, sock_broken = False,
            stopping = False, started = False,
            send_glet = None, recv_glet = None, sock_glet = None,
            session = PyNone, server_info = PyNone,
            msg_id = 0, sub_id = 0, no_receipt = {}\<rparr>"

text \<open>\<open>Connection.send\<close>; \<open>extra_headers\<close> is \<open>[]\<close> for \<open>None\<close>.\<close>

definition dict_update :: "hdrs \<Rightarrow> hdrs \<Rightarrow> hdrs" where
  "dict_update h extra = fold (\<lambda>kv d. dict_set d (fst kv) (snd kv)) extra h"

definition send :: "'w connection \<Rightarrow> string \<Rightarrow> string \<Rightarrow> hdrs \<Rightarrow> error + 'w connection" where
  "send c destination bdy extra_headers =
     (let hs = [(''destination'', PyStr destination), (''receipt'', PyInt (msg_id c))];
          c1 = c\<lparr>no_receipt := insert (PyInt (msg_id c)) (no_receipt c)\<rparr>;
          c2 = c1\<lparr>msg_id := msg_id c1 + 1\<rparr>;
          hs' = (if extra_headers \<noteq> [] then dict_update hs extra_headers else hs)
      in (case Frame_new ''SEND'' hs' bdy of
            Inl e \<Rightarrow> Inl e
          | Inr f \<Rightarrow> Inr (put_new c2 f)))"

text \<open>\<open>Connection.subscribe\<close>.\<close>

definition subscribe :: "'w connection \<Rightarrow> string \<Rightarrow> error + 'w connection" where
  "subscribe c destination =
     (let c1 = c\<lparr>sub_id := sub_id c + 1\<rparr>;
          hs = [(''subscription'', PyStr destination), (''id'', PyInt (sub_id c1)),
                (''ack'', PyStr ''auto'')]
      in (case Frame_new ''SUBSCRIBE'' hs [] of
            Inl e \<Rightarrow> Inl e
          | Inr f \<Rightarrow> Inr (put_new c1 f)))"

text \<open>
  One step of \<open>_run_send\<close>. \<open>sock.sendall\<close> either returns or raises \<open>socket.error\<close>;
  which of the two is the transport's choice, given as \<open>wr\<close>. Without a socket
  (\<open>self.sock\<close> is \<open>None\<close>) the call raises \<open>AttributeError\<close>, which the loop does not
  catch. The result is the connection after the step and the bytes the step passed to
  \<open>sendall\<close>, if it came to that. \<open>None\<close> is a step that cannot be taken: the greenlet
  is not there, is blocked in \<open>sock_ready.wait()\<close>, or is blocked in \<open>send_q.peek()\<close> on
  an empty queue. (A reference in the queue always denotes an object; the test on \<open>r\<close>
  makes the definition total.)
\<close>

datatype write_result = WriteOk | WriteFails

definition run_send_step ::
  "'w connection \<Rightarrow> write_result \<Rightarrow> ('w connection \<times> string option) option" where
  "run_send_step c wr =
     (case send_glet c of
        Some Waiting \<Rightarrow>
          if sock_ready c then Some (c\<lparr>send_glet := Some Running\<rparr>, None) else None
      | Some Running \<Rightarrow>
          if stopping c then Some (c\<lparr>send_glet := Some Exited\<rparr>, None)
          else (case send_q c of
                  [] \<Rightarrow> None
                | r # rest \<Rightarrow>
                    if length (frames c) \<le> r then None
                    else (case serialize (frames c ! r) of
                            (serial_cur, cur) \<Rightarrow>
                              (let c1 = c\<lparr>frames := (frames c)[r := cur]\<rparr>
                               in case sock c of
                                    None \<Rightarrow>
                                      Some (c1\<lparr>send_glet := Some (Died AttributeError)\<rparr>, None)
                                  | Some s \<Rightarrow>
                                      (case wr of
                                         WriteOk \<Rightarrow>
                                           Some (c1\<lparr>send_q := rest\<rparr>, Some serial_cur)
                                       | WriteFails \<Rightarrow>
                                           Some ((exec_stmts socket_error_stmts c1)
                                                   \<lparr>send_glet := Some Waiting\<rparr>,
                                                 Some serial_cur)))))
      | _ \<Rightarrow> None)"

text \<open>
  The dispatch of \<open>_run_recv\<close> on the frame \<open>cur\<close> it has parsed, in the caller's world
  \<open>w\<close>: the four \<open>if\<close> statements in their order.
\<close>

definition recv_dispatch ::
  "'w connection \<Rightarrow> frame \<Rightarrow> 'w \<Rightarrow> error + ('w connection \<times> 'w)" where
  "recv_dispatch c cur w =
     (case (if command cur = ''MESSAGE'' \<and> dict_contains (headers cur) ''ack''
            then (case Frame_new ''ACK'' [] [] of
                    Inl e \<Rightarrow> Inl e
                  | Inr ack \<Rightarrow> Inr (put_new c ack))
            else Inr c) of
        Inl e \<Rightarrow> Inl e
      | Inr c1 \<Rightarrow>
          Inr (if command cur = ''RECEIPT''
                  \<and> dict_get (headers cur) ''receipt-id'' \<in> no_receipt c1
               then c1\<lparr>no_receipt := no_receipt c1 - {dict_get (headers cur) ''receipt-id''}\<rparr>
               else c1,
               w))"

text \<open>
  One step of \<open>_run_recv\<close>. \<open>None\<close> is a step that cannot be taken or that never
  returns (\<open>parse_from_socket\<close> on a closed socket).
\<close>

definition run_recv_step :: "'w connection \<Rightarrow> 'w \<Rightarrow> ('w connection \<times> 'w) option" where
  "run_recv_step c w =
     (case recv_glet c of
        Some Waiting \<Rightarrow>
          if sock_ready c then Some (c\<lparr>recv_glet := Some Running\<rparr>, w) else None
      | Some Running \<Rightarrow>
          if stopping c then Some (c\<lparr>recv_glet := Some Exited\<rparr>, w)
          else (case sock c of
                  None \<Rightarrow> Some (c\<lparr>recv_glet := Some (Died AttributeError)\<rparr>, w)
                | Some s \<Rightarrow>
                    (case parse_from_socket s of
                       None \<Rightarrow> None
                     | Some (Inl e, s') \<Rightarrow>
                         if e = SocketError
                         then Some ((exec_stmts socket_error_stmts (c\<lparr>sock := Some s'\<rparr>))
                                      \<lparr>recv_glet := Some Waiting\<rparr>, w)
                         else Some (c\<lparr>sock := Some s', recv_glet := Some (Died e)\<rparr>, w)
                     | Some (Inr cur, s') \<Rightarrow>
                         (case recv_dispatch (c\<lparr>sock := Some s'\<rparr>) cur w of
                            Inl e \<Rightarrow> Some (c\<lparr>sock := Some s', recv_glet := Some (Died e)\<rparr>, w)
                          | Inr (c', w') \<Rightarrow> Some (c', w'))))
      | _ \<Rightarrow> None)"

text \<open>
  \<open>Connection._reconnect\<close>. \<open>new_sock\<close> is what \<open>get_connection\<close> gives (\<open>None\<close> when it
  raises), \<open>wr\<close> what \<open>sendall\<close> does with the \<open>CONNECT\<close> frame. The result is the
  connection as the call leaves it and the exception it raised, if any.
\<close>

definition reconnect ::
  "'w connection \<Rightarrow> socket option \<Rightarrow> write_result \<Rightarrow> ('w connection \<times> error option) option" where
  "reconnect c new_sock wr =
     (case new_sock of
        None \<Rightarrow> Some (c, Some SocketError)
      | Some s \<Rightarrow>
          (let c1 = c\<lparr>sock := Some s\<rparr>;
               hs = [(''login'', PyStr (login c)), (''passcode'', PyStr (passcode c))]
           in case Frame_new ''CONNECT'' hs [] of
                Inl e \<Rightarrow> Some (c1, Some e)
              | Inr f \<Rightarrow>
                  (case wr of
                     WriteFails \<Rightarrow> Some (c1, Some SocketError)
                   | WriteOk \<Rightarrow>
                       (case parse_from_socket s of
                          None \<Rightarrow> None
                        | Some (Inl e, s') \<Rightarrow> Some (c1\<lparr>sock := Some s'\<rparr>, Some e)
                        | Some (Inr resp, s') \<Rightarrow>
                            (let c2 = c1\<lparr>sock := Some s'\<rparr>
                             in if command resp \<noteq> ''CONNECTED''
                                then Some (c2, Some UnexpectedFrame)
                                else (case dict_item (headers resp) ''session'' of
                                        Inl e \<Rightarrow> Some (c2, Some e)
                                      | Inr sess \<Rightarrow>
                                          Some (exec_stmts reconnected_stmts
                                                  (c2\<lparr>session := sess,
                                                      server_info :=
                                                        dict_get (headers resp) ''server''\<rparr>),
                                                None)))))))"

text \<open>One step of \<open>_run_socket_fixer\<close>: every exception of \<open>_reconnect\<close> is swallowed.\<close>

definition run_socket_fixer_step ::
  "'w connection \<Rightarrow> socket option \<Rightarrow> write_result \<Rightarrow> 'w connection option" where
  "run_socket_fixer_step c new_sock wr =
     (case sock_glet c of
        Some Waiting \<Rightarrow>
          if sock_broken c then map_option fst (reconnect (c\<lparr>sock_glet := Some Running\<rparr>) new_sock wr)
          else None
      | Some Running \<Rightarrow>
          if stopping c then Some (c\<lparr>sock_glet := Some Exited\<rparr>)
          else if sock_broken c then map_option fst (reconnect c new_sock wr)
          else Some (c\<lparr>sock_glet := Some Waiting\<rparr>)
      | _ \<Rightarrow> None)"

text \<open>
  The engine seen through its two events. gevent switches greenlets only where one
  blocks, and neither \<open>Event.set()\<close> nor \<open>Event.clear()\<close> blocks: the two event statements
  of a failure handler, and the two of \<open>_reconnect\<close>, run with nothing in between. A
  run of the engine after \<open>start\<close> is therefore a sequence of these two transitions.
  \<open>engine_states\<close> lists every state the run goes through, one for each statement;
  \<open>engine_run\<close> is the state after the last transition.
\<close>

datatype transition = SocketFailed | Reconnected

fun stmts_of :: "transition \<Rightarrow> flag_stmt list" where
  "stmts_of SocketFailed = socket_error_stmts"
| "stmts_of Reconnected = reconnected_stmts"

fun engine_run :: "transition list \<Rightarrow> 'w connection \<Rightarrow> 'w connection" where
  "engine_run [] c = c"
| "engine_run (t # ts) c = engine_run ts (exec_stmts (stmts_of t) c)"

fun engine_states :: "transition list \<Rightarrow> 'w connection \<Rightarrow> 'w connection list" where
  "engine_states [] c = []"
| "engine_states (t # ts) c =
     states_after (stmts_of t) c @ engine_states ts (exec_stmts (stmts_of t) c)"

text \<open>
  What the greenlets other than the sender, and the callers of \<open>send\<close>, \<open>subscribe\<close>
  and \<open>send_frame\<close>, can have done to the connection \<open>c\<close> when it has become \<open>c'\<close>:
  they do not touch the sender's greenlet, they only append to the queue, and they
  only create frame objects.
\<close>

definition others_ran :: "'w connection \<Rightarrow> 'w connection \<Rightarrow> bool" where
  "others_ran c c' =
     (send_glet c' = send_glet c
      \<and> take (length (send_q c)) (send_q c') = send_q c
      \<and> take (length (frames c)) (frames c') = frames c)"

section \<open>Concrete connections and sockets\<close>

text \<open>A socket whose buffer holds \<open>bytes\<close> and whose peer has closed after them.\<close>

definition wire_socket :: "string \<Rightarrow> socket" where
  "wire_socket bytes = \<lparr>rbuf = bytes, net = [], log = []\<rparr>"

text \<open>A started connection after a successful \<open>_reconnect\<close> on the socket \<open>s\<close>, its sender
  and its receiver past \<open>sock_ready.wait()\<close>.\<close>

definition running_on :: "'w connection \<Rightarrow> socket \<Rightarrow> 'w connection" where
  "running_on c s =
     c\<lparr>sock := Some s, sock_ready := True, sock_broken := False,
       send_glet := Some Running, recv_glet := Some Running, sock_glet := Some Waiting\<rparr>"

text \<open>A message handler that records every frame it is called with.\<close>

definition record_frame :: "frame \<Rightarrow> frame list \<Rightarrow> frame list" where
  "record_frame f w = w @ [f]"

text \<open>\<open>Connection("larbroker", on_message=record_frame)\<close>, then
  \<open>send("/queue/x", "hello")\<close>.\<close>

definition fresh_conn :: "frame list connection" where
  "fresh_conn = projr (Connection_new ''larbroker'' [] [] (Some record_frame) None None True)"

definition conn_after_send :: "frame list connection" where
  "conn_after_send = projr (send fresh_conn ''/queue/x'' ''hello'' [])"

text \<open>A \<open>RECEIPT\<close> for the receipt id 0 and a \<open>MESSAGE\<close> that asks for an
  acknowledgement, as the broker writes them.\<close>

definition receipt_wire :: string where
  "receipt_wire = ''RECEIPT'' @ [NL] @ ''receipt-id:0'' @ [NL, NL, NUL]"

definition message_wire :: string where
  "message_wire =
     ''MESSAGE'' @ [NL] @ ''destination:/queue/x'' @ [NL] @ ''ack:auto'' @ [NL, NL]
       @ ''hello'' @ [NUL]"

definition message_frame :: frame where
  "message_frame =
     \<lparr>command = ''MESSAGE'',
      headers = [(''destination'', PyStr ''/queue/x''), (''ack'', PyStr ''auto'')],
      body = ''hello''\<rparr>"

text \<open>A socket on which the frame \<open>SEND\<close> with the header \<open>k:v\<close> arrives in two
  pieces, nothing arriving between the first peek and the \<open>recv\<close> after it.\<close>

definition split_socket :: socket where
  "split_socket =
     \<lparr>rbuf = [], net = [Data (''SEND'' @ [NL]), Data [], Data (''k:v'' @ [NL, NL, NUL])],
      log = []\<rparr>"

definition kv_frame :: frame where
  "kv_frame = \<lparr>command = ''SEND'', headers = [(''k'', PyStr ''v'')], body = []\<rparr>"

text \<open>The frame \<open>Frame("ACK", {})\<close> of the receiver's automatic acknowledgement.\<close>

definition ack_frame :: frame where
  "ack_frame = \<lparr>command = ''ACK'', headers = [], body = []\<rparr>"

text \<open>
  The connection after \<open>send("/queue/x", "hello")\<close>, running without a peer; the frame
  object of that \<open>send\<close> once \<open>serialize\<close> has run on it, and its bytes; the connection
  after the sender's write of it has failed; and that connection ready again on a new
  socket, the receiver having enqueued an \<open>ACK\<close> in between.
\<close>

definition conn_running :: "frame list connection" where
  "conn_running = running_on conn_after_send (wire_socket [])"

definition hello_frame :: frame where
  "hello_frame =
     \<lparr>command = ''SEND'',
      headers = [(''destination'', PyStr ''/queue/x''), (''receipt'', PyInt 0)],
      body = ''hello''\<rparr>"

definition hello_serialized :: frame where
  "hello_serialized =
     \<lparr>command = ''SEND'',
      headers = [(''destination'', PyStr ''/queue/x''), (''receipt'', PyInt 0),
                 (''content-length'', PyInt 5)],
      body = ''hello''\<rparr>"

definition hello_wire :: string where
  "hello_wire =
     ''SEND'' @ [NL] @ ''destination:/queue/x'' @ [NL] @ ''receipt:0'' @ [NL]
       @ ''content-length:5'' @ [NL, NL] @ ''hello'' @ [NUL]"

definition conn_failed :: "frame list connection" where
  "conn_failed =
     conn_running\<lparr>frames := [hello_serialized], sock_ready := False, sock_broken := True,
       send_glet := Some Waiting\<rparr>"

definition conn_ready_again :: "frame list connection" where
  "conn_ready_again =
     put_new (conn_failed\<lparr>sock := Some (wire_socket []), sock_ready := True,
                sock_broken := False\<rparr>) ack_frame"

section \<open>Facts about the codec\<close>

lemma dict_contains_set: "dict_contains (dict_set d k v) k"
  by (induction d k v rule: dict_set.induct) (auto simp: dict_contains_def)

text \<open>Serializing twice gives the same bytes: the second call finds the
  \<open>content-length\<close> the first one stored.\<close>

lemma serialize_idem: "serialize (snd (serialize f)) = serialize f"
  by (auto simp: serialize_def Let_def dict_contains_set)

lemma py_join_lines: "xs \<noteq> [] \<Longrightarrow> py_join [NL] xs @ [NL] = concat (map (\<lambda>l. l @ [NL]) xs)"
  by (induction "[NL]" xs rule: py_join.induct) auto

text \<open>With at least one header on the frame after \<open>serialize\<close> has run, the bytes are the
  command line, one line for each header, the blank line, the body and the NUL.\<close>

lemma serialize_with_headers:
  assumes "headers (snd (serialize f)) \<noteq> []"
  shows "fst (serialize f) =
           command f @ [NL]
           @ concat (map (\<lambda>kv. header_line kv @ [NL]) (headers (snd (serialize f))))
           @ [NL] @ body f @ [NUL]"
proof -
  define h where "h = headers (snd (serialize f))"
  have ne: "map header_line h \<noteq> []"
    using assms by (simp add: h_def)
  have "fst (serialize f) =
          command f @ [NL] @ (py_join [NL] (map header_line h) @ [NL]) @ [NL] @ body f @ [NUL]"
    by (simp add: serialize_def Let_def h_def)
  also have "py_join [NL] (map header_line h) @ [NL] =
          concat (map (\<lambda>l. l @ [NL]) (map header_line h))"
    by (rule py_join_lines[OF ne])
  finally show ?thesis
    by (simp add: h_def comp_def)
qed

text \<open>Every frame the parser delivers went through \<open>Frame.__new__\<close>, so its command is
  one of \<open>ALL_CMDS\<close>; \<open>HEARTBEAT\<close> is not among them.\<close>

lemma finish_frame_cmd:
  "finish_frame cmd h sofar n = Inr (st', Some f, m) \<Longrightarrow> command f \<in> set ALL_CMDS"
  by (auto simp: finish_frame_def Frame_new_def split: if_splits)

lemma body_nul_cmd:
  "body_nul cmd h sofar data n = Inr (st', Some f, m) \<Longrightarrow> command f \<in> set ALL_CMDS"
  by (auto simp: body_nul_def split: if_splits prod.splits dest: finish_frame_cmd)

lemma body_len_cmd:
  "body_len cmd h sofar data n b = Inr (st', Some f, m) \<Longrightarrow> command f \<in> set ALL_CMDS"
  by (auto simp: body_len_def Let_def split: if_splits dest: finish_frame_cmd)

lemma parse_body_cmd:
  "parse_body cmd h data n = Inr (st', Some f, m) \<Longrightarrow> command f \<in> set ALL_CMDS"
  by (auto simp: parse_body_def split: if_splits sum.splits dest: body_nul_cmd body_len_cmd)

lemma headers_phase_cmd:
  "headers_phase cmd sofar data n = Inr (st', Some f, m) \<Longrightarrow> command f \<in> set ALL_CMDS"
  by (auto simp: headers_phase_def split: if_splits prod.splits dest: parse_body_cmd)

lemma command_phase_cmd:
  "command_phase sofar data n = Inr (st', Some f, m) \<Longrightarrow> command f \<in> set ALL_CMDS"
  by (auto simp: command_phase_def split: if_splits prod.splits dest: headers_phase_cmd)

lemma heartbeat_invalid: "''HEARTBEAT'' \<notin> set ALL_CMDS"
  by (simp add: ALL_CMDS_def CLIENT_CMDS_def SERVER_CMDS_def)

lemma start_phase_cmd:
  "start_phase chunk = Inr (st', Some f, m) \<Longrightarrow> command f \<in> set ALL_CMDS"
  by (auto simp: start_phase_def Let_def Frame_new_def heartbeat_invalid
      split: if_splits dest: command_phase_cmd)

lemma feed_valid_command:
  "feed st chunk = Inr (st', Some f, m) \<Longrightarrow> command f \<in> set ALL_CMDS"
  by (cases st)
    (auto dest: start_phase_cmd command_phase_cmd headers_phase_cmd body_len_cmd body_nul_cmd)

lemma feed_never_heartbeat:
  "feed st chunk = Inr (st', Some f, m) \<Longrightarrow> command f \<noteq> ''HEARTBEAT''"
  using feed_valid_command heartbeat_invalid by metis

text \<open>Every value the parser stores in the header dictionary is a string, so a
  \<open>content-length\<close> header always makes \<open>headers['content-length'] + 1\<close> raise.\<close>

lemma dict_set_all_str:
  "\<forall>kv \<in> set h. \<exists>s. snd kv = PyStr s \<Longrightarrow>
     \<forall>kv \<in> set (dict_set h k (PyStr v)). \<exists>s. snd kv = PyStr s"
  by (induction h k "PyStr v" rule: dict_set.induct) auto

lemma fold_store_all_str:
  "\<forall>kv \<in> set h. \<exists>s. snd kv = PyStr s \<Longrightarrow>
     \<forall>kv \<in> set (fold store_header ls h). \<exists>s. snd kv = PyStr s"
proof (induction ls arbitrary: h)
  case Nil
  then show ?case by simp
next
  case (Cons l ls)
  obtain key sep val where p: "py_partition l '':'' = (key, sep, val)"
    by (cases "py_partition l '':''") auto
  have "\<forall>kv \<in> set (store_header l h). \<exists>s. snd kv = PyStr s"
    using dict_set_all_str[OF Cons.prems, of key val] by (simp add: store_header_def p)
  from Cons.IH[OF this] show ?case by simp
qed

lemma parse_header_block_all_str:
  "\<forall>kv \<in> set (parse_header_block hs). \<exists>s. snd kv = PyStr s"
  unfolding parse_header_block_def by (rule fold_store_all_str) simp

lemma all_str_get:
  "\<forall>kv \<in> set h. \<exists>s. snd kv = PyStr s \<Longrightarrow> dict_contains h k \<Longrightarrow> \<exists>s. dict_get h k = PyStr s"
  by (induction h) (auto simp: dict_contains_def dict_get_def split: if_splits)

lemma content_length_raises:
  "dict_contains (parse_header_block hs) ''content-length'' \<Longrightarrow>
     parse_body cmd (parse_header_block hs) data n = Inl TypeError"
  using all_str_get[OF parse_header_block_all_str, of hs "''content-length''"]
  by (auto simp: parse_body_def)

section \<open>Facts about the socket\<close>

lemma wait_readable_stream:
  "wait_readable evs = (Inr buf, evs') \<Longrightarrow>
     buf @ concat (map event_bytes evs') = concat (map event_bytes evs)"
  by (induction evs rule: wait_readable.induct) (auto split: if_splits)

lemma arrivals_stream:
  "arrivals s = (Inr buf, evs) \<Longrightarrow> buf @ concat (map event_bytes evs) = stream_of s"
  by (auto simp: arrivals_def stream_of_def
      split: list.splits net_event.splits if_splits dest: wait_readable_stream)

lemma arrivals_extends: "arrivals s = (Inr buf, evs) \<Longrightarrow> \<exists>more. buf = rbuf s @ more"
  by (auto simp: arrivals_def split: list.splits net_event.splits if_splits)

text \<open>A peek removes nothing: the stream is the same after it.\<close>

lemma recv_peek_ok:
  "recv_peek s n = (Inr chunk, s1) \<Longrightarrow>
     log s1 = log s @ [Peeked chunk] \<and> stream_of s1 = stream_of s \<and> chunk = take n (rbuf s1)"
  by (auto simp: recv_peek_def stream_of_def split: prod.splits sum.splits dest: arrivals_stream)

text \<open>What a peek has returned, the next peek returns again, with what arrived since.\<close>

lemma recv_peek_again:
  assumes "recv_peek s n = (Inr d, s1)"
  shows "take (length (take n (rbuf s))) d = take n (rbuf s)"
proof -
  obtain buf evs where a: "arrivals s = (Inr buf, evs)" and d: "d = take n buf"
    using assms by (auto simp: recv_peek_def split: prod.splits sum.splits)
  from arrivals_extends[OF a] obtain more where "buf = rbuf s @ more" ..
  with d show ?thesis
    by (simp add: min_def)
qed

lemma recv_ok:
  assumes "recv s n = (Inr b, s2)"
  shows "log s2 = log s @ [Discarded n b] \<and> stream_of s = b @ stream_of s2 \<and> length b \<le> n"
proof (cases "n = 0")
  case True
  with assms show ?thesis
    by (auto simp: recv_def stream_of_def)
next
  case False
  then obtain buf evs where a: "arrivals s = (Inr buf, evs)" and b: "b = take n buf"
    and s2: "s2 = s\<lparr>rbuf := drop n buf, net := evs, log := log s @ [Discarded n (take n buf)]\<rparr>"
    using assms by (auto simp: recv_def split: prod.splits sum.splits)
  have "stream_of s = (take n buf @ drop n buf) @ concat (map event_bytes evs)"
    using arrivals_stream[OF a] by simp
  then show ?thesis
    using b s2 by (simp add: stream_of_def)
qed

text \<open>The log of a call of \<open>parse_from_socket\<close> that returns a frame, by induction on the
  loop.\<close>

lemma pfs_loop_log:
  assumes "pfs_loop st s = Some y"
  shows "\<forall>f s'. y = (Inr f, s') \<longrightarrow>
    (\<exists>tr chunk. log s' = log s @ tr @ [Peeked chunk] \<and> replay st (tr @ [Peeked chunk]) f
        \<and> chunk = take 4096 (rbuf s')
        \<and> stream_of s = concat (map discarded_bytes tr) @ stream_of s')"
  using assms
proof (induction rule: pfs_loop.raw_induct[rotated 1, consumes 1, case_names step])
  case (step pfs_loop st s y)
  show ?case
  proof (intro allI impI)
    fix f s' assume y: "y = (Inr f, s')"
    obtain r s1 where pk: "recv_peek s 4096 = (r, s1)"
      by (cases "recv_peek s 4096")
    show "\<exists>tr chunk. log s' = log s @ tr @ [Peeked chunk] \<and> replay st (tr @ [Peeked chunk]) f
        \<and> chunk = take 4096 (rbuf s')
        \<and> stream_of s = concat (map discarded_bytes tr) @ stream_of s'"
    proof (cases r)
      case (Inl e)
      with step(2) pk y show ?thesis by simp
    next
      case (Inr cur_data)
      note pk' = recv_peek_ok[OF pk[unfolded Inr]]
      show ?thesis
      proof (cases "feed st cur_data")
        case (Inl e)
        with step(2) pk Inr y show ?thesis by simp
      next
        case fd: (Inr res)
        obtain st' fr n where res: "res = (st', fr, n)"
          by (cases res)
        show ?thesis
        proof (cases fr)
          case (Some g)
          with step(2) pk Inr fd res y have "g = f" "s1 = s'"
            by simp_all
          with pk' fd res Some show ?thesis
            by (intro exI[of _ "[]"] exI[of _ cur_data]) simp
        next
          case None
          obtain r2 s2 where rc: "recv s1 n = (r2, s2)"
            by (cases "recv s1 n")
          show ?thesis
          proof (cases r2)
            case (Inl e)
            with step(2) pk Inr fd res None rc y show ?thesis by simp
          next
            case rb: (Inr b)
            note rc' = recv_ok[OF rc[unfolded rb]]
            from step(2) pk Inr fd res None rc rb have "pfs_loop st' s2 = Some y"
              by simp
            from step(1)[OF this] y obtain tr chunk where
              ih: "log s' = log s2 @ tr @ [Peeked chunk]" "replay st' (tr @ [Peeked chunk]) f"
                  "chunk = take 4096 (rbuf s')"
                  "stream_of s2 = concat (map discarded_bytes tr) @ stream_of s'"
              by blast
            show ?thesis
              using ih pk' rc' fd res None
              by (intro exI[of _ "Peeked cur_data # Discarded n b # tr"] exI[of _ chunk]) simp
          qed
        qed
      qed
    qed
  qed
qed

lemma split_socket_parse:
  "parse_from_socket split_socket =
     Some (Inr kv_frame,
           \<lparr>rbuf = ''k:v'' @ [NL, NL, NUL], net = [],
            log = [Peeked (''SEND'' @ [NL]), Discarded 5 (''SEND'' @ [NL]),
                   Peeked (''k:v'' @ [NL, NL, NUL])]\<rparr>)"
  by code_simp

lemma receipt_on_socket:
  "parse_from_socket (wire_socket receipt_wire) =
     Some (Inr \<lparr>command = ''RECEIPT'', headers = [(''receipt-id'', PyStr ''0'')], body = []\<rparr>,
           \<lparr>rbuf = receipt_wire, net = [], log = [Peeked receipt_wire]\<rparr>)"
  by code_simp

lemma message_on_socket:
  "parse_from_socket (wire_socket message_wire) =
     Some (Inr message_frame, \<lparr>rbuf = message_wire, net = [], log = [Peeked message_wire]\<rparr>)"
  by code_simp

section \<open>Facts about the connection\<close>

lemma exec_socket_error:
  "exec_stmts socket_error_stmts c = c\<lparr>sock_ready := False, sock_broken := True\<rparr>"
  by (simp add: exec_stmts_def socket_error_stmts_def)

lemma fresh_conn_fields:
  "fresh_conn =
     \<lparr>protected = True, address = ''larbroker'', login = [], passcode = [],
      on_message = Some record_frame, on_reciept = None, on_error = None,
      send_q = [], frames = [], sock = None,
      sock_ready = False, sock_broken = True,
      stopping = False, started = True,
      send_glet = Some Waiting, recv_glet = Some Waiting, sock_glet = Some Running,
      session = PyNone, server_info = PyNone,
      msg_id = 0, sub_id = 0, no_receipt = {}\<rparr>"
  by (simp add: fresh_conn_def Connection_new_def start_def exec_stmts_def start_stmts_def)

lemma fresh_conn_eq:
  "Connection_new ''larbroker'' [] [] (Some record_frame) None None True = Inr fresh_conn"
  by (simp add: fresh_conn_def Connection_new_def start_def)

lemma conn_after_send_eq: "send fresh_conn ''/queue/x'' ''hello'' [] = Inr conn_after_send"
  by (simp add: conn_after_send_def send_def Frame_new_def ALL_CMDS_def CLIENT_CMDS_def Let_def)

lemma conn_after_send_fields:
  "conn_after_send =
     fresh_conn\<lparr>send_q := [0],
       frames := [\<lparr>command = ''SEND'',
                   headers = [(''destination'', PyStr ''/queue/x''), (''receipt'', PyInt 0)],
                   body = ''hello''\<rparr>],
       msg_id := 1, no_receipt := {PyInt 0}\<rparr>"
  by (simp add: conn_after_send_def send_def Frame_new_def ALL_CMDS_def CLIENT_CMDS_def Let_def
      put_new_def fresh_conn_fields)

lemma hello_frame_serialize: "serialize hello_frame = (hello_wire, hello_serialized)"
  by code_simp

text \<open>The sender is the only one to take from the queue, and it takes the head, after a
  write that returned.\<close>

lemma run_send_step_removes_only_on_success:
  "run_send_step c wr = Some (c', out) \<Longrightarrow> send_q c' \<noteq> send_q c \<Longrightarrow>
     wr = WriteOk \<and> send_q c = hd (send_q c) # send_q c'"
  by (auto simp: run_send_step_def exec_socket_error Let_def
      split: option.splits glet.splits if_splits list.splits prod.splits write_result.splits)

text \<open>The dispatch never fails, never calls a handler, and enqueues at most an \<open>ACK\<close>.\<close>

lemma recv_dispatch_total:
  "\<exists>c'. recv_dispatch c cur w = Inr (c', w) \<and> on_message c' = on_message c
     \<and> send_q c' = (if command cur = ''MESSAGE'' \<and> dict_contains (headers cur) ''ack''
                     then send_q c @ [length (frames c)] else send_q c)
     \<and> frames c' = (if command cur = ''MESSAGE'' \<and> dict_contains (headers cur) ''ack''
                     then frames c @ [\<lparr>command = ''ACK'', headers = [], body = []\<rparr>]
                     else frames c)
     \<and> (command cur = ''MESSAGE'' \<longrightarrow> no_receipt c' = no_receipt c)"
  by (simp add: recv_dispatch_def Frame_new_def ALL_CMDS_def CLIENT_CMDS_def put_new_def)

lemma run_recv_step_world:
  assumes "run_recv_step c w = Some (c', w')"
  shows "w' = w \<and> on_message c' = on_message c"
proof (cases "recv_glet c")
  case None
  with assms show ?thesis by (simp add: run_recv_step_def)
next
  case (Some g)
  show ?thesis
  proof (cases g)
    case Waiting
    with assms Some show ?thesis by (auto simp: run_recv_step_def split: if_splits)
  next
    case Running
    show ?thesis
    proof (cases "stopping c")
      case True
      with assms Some Running show ?thesis by (auto simp: run_recv_step_def)
    next
      case False
      show ?thesis
      proof (cases "sock c")
        case None
        with assms Some Running False show ?thesis by (auto simp: run_recv_step_def)
      next
        case sk: (Some s)
        show ?thesis
        proof (cases "parse_from_socket s")
          case None
          with assms Some Running False sk show ?thesis by (simp add: run_recv_step_def)
        next
          case pf: (Some res)
          obtain r s' where res: "res = (r, s')" by (cases res)
          show ?thesis
          proof (cases r)
            case (Inl e)
            with assms Some Running False sk pf res show ?thesis
              by (auto simp: run_recv_step_def exec_socket_error split: if_splits)
          next
            case (Inr cur)
            from recv_dispatch_total[of "c\<lparr>sock := Some s'\<rparr>" cur w]
            obtain c1 where d: "recv_dispatch (c\<lparr>sock := Some s'\<rparr>) cur w = Inr (c1, w)"
              and om: "on_message c1 = on_message c" by auto
            with assms Some Running False sk pf res Inr show ?thesis
              by (simp add: run_recv_step_def)
          qed
        qed
      qed
    qed
  next
    case Exited
    with assms Some show ?thesis by (simp add: run_recv_step_def)
  next
    case (Died e)
    with assms Some show ?thesis by (simp add: run_recv_step_def)
  qed
qed

lemma states_after_transition:
  "sock_ready c \<noteq> sock_broken c \<Longrightarrow> c' \<in> set (states_after (stmts_of t) c) \<Longrightarrow>
     \<not> (sock_ready c' \<and> sock_broken c')"
  by (cases t) (auto simp: socket_error_stmts_def reconnected_stmts_def)

lemma exec_transition:
  "sock_ready (exec_stmts (stmts_of t) c) \<noteq> sock_broken (exec_stmts (stmts_of t) c)"
  by (cases t) (auto simp: socket_error_stmts_def reconnected_stmts_def exec_stmts_def)

lemma engine_invariant:
  "sock_ready c \<noteq> sock_broken c \<Longrightarrow>
     (\<forall>c' \<in> set (engine_states ts c). \<not> (sock_ready c' \<and> sock_broken c'))
     \<and> sock_ready (engine_run ts c) \<noteq> sock_broken (engine_run ts c)"
proof (induction ts arbitrary: c)
  case Nil
  then show ?case by simp
next
  case (Cons t ts)
  from Cons.IH[OF exec_transition[of t c]] Cons.prems states_after_transition[of c _ t]
  show ?case by auto
qed

lemma start_flags: "start c = Inr c0 \<Longrightarrow> \<not> sock_ready c0 \<and> sock_broken c0"
  by (auto simp: start_def exec_stmts_def start_stmts_def split: if_splits)

section \<open>Where the codec does what is asked of it\<close>

text \<open>A newline before the bytes of a frame is skipped and counted: the frame is the
  same.\<close>

lemma finish_frame_Suc:
  "finish_frame cmd h sofar (Suc n) = map_sum id (map_prod id (map_prod id Suc)) (finish_frame cmd h sofar n)"
  by (simp add: finish_frame_def split: sum.splits)

lemma body_nul_Suc:
  "body_nul cmd h sofar data (Suc n) = map_sum id (map_prod id (map_prod id Suc)) (body_nul cmd h sofar data n)"
  by (simp add: body_nul_def finish_frame_Suc split: prod.splits)

lemma parse_body_Suc:
  "parse_body cmd (parse_header_block hs) data (Suc n)
     = map_sum id (map_prod id (map_prod id Suc)) (parse_body cmd (parse_header_block hs) data n)"
proof (cases "dict_contains (parse_header_block hs) ''content-length''")
  case True
  then show ?thesis by (simp add: content_length_raises)
next
  case False
  then show ?thesis by (simp add: parse_body_def body_nul_Suc)
qed

lemma headers_phase_Suc:
  "headers_phase cmd sofar data (Suc n)
     = map_sum id (map_prod id (map_prod id Suc)) (headers_phase cmd sofar data n)"
  by (simp add: headers_phase_def parse_body_Suc split: prod.splits)

lemma command_phase_Suc:
  "command_phase sofar data (Suc n)
     = map_sum id (map_prod id (map_prod id Suc)) (command_phase sofar data n)"
  by (simp add: command_phase_def headers_phase_Suc split: prod.splits)

lemma lstrip_newline: "py_lstrip_nl (NL # chunk) = py_lstrip_nl chunk"
  by (simp add: py_lstrip_nl_def)

lemma lstrip_length: "length (py_lstrip_nl chunk) \<le> length chunk"
  by (simp add: py_lstrip_nl_def length_dropWhile_le)

lemma start_phase_newline:
  "start_phase (NL # chunk) = map_sum id (map_prod id (map_prod id Suc)) (start_phase chunk)"
proof -
  have c: "length (NL # chunk) - length (py_lstrip_nl (NL # chunk))
         = Suc (length chunk - length (py_lstrip_nl chunk))"
    using lstrip_length[of chunk] by (simp add: lstrip_newline Suc_diff_le)
  show ?thesis
    unfolding start_phase_def c
    by (simp add: Let_def command_phase_Suc Frame_new_def heartbeat_invalid)
qed

lemma parse_after_newline: "parse data = Inr f \<Longrightarrow> parse (NL # data) = Inr f"
  by (auto simp: parse_def start_phase_newline split: sum.splits prod.splits if_splits option.splits)

text \<open>
  The round trip holds for a frame without body that has at least one header, no
  \<open>content-length\<close> among them, string values, and no newline in a key or a value and
  no colon in a key: \<open>serialize\<close> leaves the frame as it is and \<open>parse\<close> gives it back.
\<close>

lemma find_sub_char:
  "c \<notin> set a \<Longrightarrow> find_sub [c] (a @ c # rest) = Some (length a)"
  by (induction a) auto

lemma py_partition_char:
  "c \<notin> set a \<Longrightarrow> py_partition (a @ c # rest) [c] = (a, [c], rest)"
  by (simp add: py_partition_def find_sub_char)

lemma py_in_char: "c \<notin> set a \<Longrightarrow> py_in [c] (a @ c # rest)"
  by (simp add: py_in_def find_sub_char)

lemma find_blank_line:
  "NL \<notin> set x \<Longrightarrow> find_sub [NL, NL] (x @ NL # NL # rest) = Some (length x)"
  by (induction x) auto

lemma find_blank_skip:
  "NL \<notin> set x \<Longrightarrow> t \<noteq> [] \<Longrightarrow> hd t \<noteq> NL \<Longrightarrow>
     find_sub [NL, NL] (x @ NL # t) = map_option (\<lambda>i. i + length x + 1) (find_sub [NL, NL] t)"
proof (induction x)
  case Nil
  then show ?case by (cases t) (auto simp: option.map_comp comp_def)
next
  case (Cons c cs)
  then show ?case by (auto simp: option.map_comp comp_def)
qed

lemma hd_not_member: "x \<noteq> [] \<Longrightarrow> c \<notin> set x \<Longrightarrow> hd x \<noteq> c"
  by (cases x) auto

lemma py_join_hd:
  "ls \<noteq> [] \<Longrightarrow> \<forall>l \<in> set ls. l \<noteq> [] \<and> NL \<notin> set l \<Longrightarrow>
     py_join [NL] ls \<noteq> [] \<and> hd (py_join [NL] ls) \<noteq> NL"
  by (induction "[NL]" ls rule: py_join.induct) (auto simp: hd_append hd_not_member)

lemma find_blank_join:
  "ls \<noteq> [] \<Longrightarrow> \<forall>l \<in> set ls. l \<noteq> [] \<and> NL \<notin> set l \<Longrightarrow>
     find_sub [NL, NL] (py_join [NL] ls @ NL # NL # rest) = Some (length (py_join [NL] ls))"
proof (induction "[NL]" ls rule: py_join.induct)
  case 1
  then show ?case by simp
next
  case (2 x)
  then show ?case by (simp add: find_blank_line)
next
  case (3 x y ys)
  let ?t = "py_join [NL] (y # ys) @ NL # NL # rest"
  have nx: "NL \<notin> set x" using 3(3) by simp
  have j: "py_join [NL] (y # ys) \<noteq> []" "hd (py_join [NL] (y # ys)) \<noteq> NL"
    using py_join_hd[of "y # ys"] 3(3) by auto
  then have t: "?t \<noteq> []" "hd ?t \<noteq> NL" by (auto simp: hd_append)
  have ih: "find_sub [NL, NL] ?t = Some (length (py_join [NL] (y # ys)))"
    using 3 by simp
  have "find_sub [NL, NL] (x @ NL # ?t) = map_option (\<lambda>i. i + length x + 1) (find_sub [NL, NL] ?t)"
    by (rule find_blank_skip[OF nx t])
  with ih show ?case by simp
qed

lemma py_split_line: "NL \<notin> set x \<Longrightarrow> py_split NL x = [x]"
  by (induction x) auto

lemma py_split_cons: "NL \<notin> set x \<Longrightarrow> py_split NL (x @ NL # t) = x # py_split NL t"
  by (induction x) auto

lemma py_split_join:
  "ls \<noteq> [] \<Longrightarrow> \<forall>l \<in> set ls. NL \<notin> set l \<Longrightarrow> py_split NL (py_join [NL] ls) = ls"
  by (induction "[NL]" ls rule: py_join.induct) (auto simp: py_split_line py_split_cons)

lemma dict_set_new: "k \<notin> fst ` set h \<Longrightarrow> dict_set h k v = h @ [(k, v)]"
  by (induction h k v rule: dict_set.induct) auto

lemma store_header_line:
  "CHR '':'' \<notin> set k \<Longrightarrow> store_header (header_line (k, PyStr v)) h = dict_set h k (PyStr v)"
  by (simp add: store_header_def header_line_def py_partition_char)

lemma fold_store_lines:
  assumes "distinct (map fst (acc @ hs))"
    and "\<forall>kv \<in> set hs. CHR '':'' \<notin> set (fst kv) \<and> (\<exists>s. snd kv = PyStr s)"
  shows "fold store_header (map header_line hs) acc = acc @ hs"
  using assms
proof (induction hs arbitrary: acc)
  case Nil
  then show ?case by simp
next
  case (Cons kv hs)
  obtain k v where kv: "kv = (k, PyStr v)" and k: "CHR '':'' \<notin> set k"
    using Cons.prems(2) by (cases kv) auto
  have new: "k \<notin> fst ` set acc" using Cons.prems(1) kv by auto
  have "store_header (header_line kv) acc = acc @ [kv]"
    using store_header_line[OF k] dict_set_new[OF new] kv by simp
  moreover have "distinct (map fst ((acc @ [kv]) @ hs))" using Cons.prems(1) by simp
  ultimately show ?case using Cons.IH[of "acc @ [kv]"] Cons.prems(2) by simp
qed

lemma valid_command_chars: "c \<in> set ALL_CMDS \<Longrightarrow> c \<noteq> [] \<and> NL \<notin> set c"
  by (auto simp: ALL_CMDS_def CLIENT_CMDS_def SERVER_CMDS_def)

lemma lstrip_no_newline: "s \<noteq> [] \<Longrightarrow> hd s \<noteq> NL \<Longrightarrow> py_lstrip_nl s = s"
  by (cases s) (auto simp: py_lstrip_nl_def)

lemma round_trip_without_body:
  assumes cmd: "command f \<in> set ALL_CMDS" and bdy: "body f = []" and ne: "headers f \<noteq> []"
    and dist: "distinct (map fst (headers f))"
    and keys: "\<forall>kv \<in> set (headers f). NL \<notin> set (fst kv) \<and> CHR '':'' \<notin> set (fst kv)"
    and vals: "\<forall>kv \<in> set (headers f). \<exists>s. snd kv = PyStr s \<and> NL \<notin> set s"
    and ncl: "\<not> dict_contains (headers f) ''content-length''"
  shows "parse (fst (serialize f)) = Inr f \<and> snd (serialize f) = f"
proof -
  let ?c = "command f" and ?h = "headers f"
  let ?ls = "map header_line ?h"
  let ?J = "py_join [NL] ?ls"
  have c: "?c \<noteq> []" "NL \<notin> set ?c" using valid_command_chars[OF cmd] by auto
  have ser: "serialize f = (?c @ NL # (?J @ NL # NL # [NUL]), f)"
    using bdy by (simp add: serialize_def)
  have ls: "?ls \<noteq> []" using ne by simp
  have lines: "\<forall>l \<in> set ?ls. l \<noteq> [] \<and> NL \<notin> set l"
    using keys vals by (fastforce simp: header_line_def)
  let ?B = "?c @ NL # (?J @ NL # NL # [NUL])"
  have B: "?B \<noteq> []" "hd ?B \<noteq> NL" using c by (auto simp: hd_append hd_not_member)
  have st: "start_phase ?B = command_phase [] ?B 0"
    using B lstrip_no_newline[OF B] by (simp add: start_phase_def Let_def)
  have cp: "command_phase [] ?B 0 = headers_phase ?c [] (?J @ NL # NL # [NUL]) (length ?c + 1)"
    using py_in_char[OF c(2)] py_partition_char[OF c(2)] by (simp add: command_phase_def)
  have blank: "find_sub [NL, NL] (?J @ NL # NL # [NUL]) = Some (length ?J)"
    by (rule find_blank_join[OF ls lines])
  have hb: "parse_header_block ?J = ?h"
    using py_split_join[OF ls] lines fold_store_lines[of "[]" ?h] dist keys vals
    by (fastforce simp: parse_header_block_def)
  have hp: "headers_phase ?c [] (?J @ NL # NL # [NUL]) (length ?c + 1)
            = parse_body ?c ?h [NUL] (length ?c + 1 + (length ?J + 2))"
    using blank hb by (simp add: headers_phase_def py_in_def py_partition_def)
  have pb: "parse_body ?c ?h [NUL] (length ?c + 1 + (length ?J + 2))
            = Inr (Finished, Some f, length ?B)"
    using ncl cmd bdy
    by (simp add: parse_body_def body_nul_def py_in_def py_partition_def finish_frame_def Frame_new_def)
  show ?thesis
    using ser st cp hp pb by (simp add: parse_def)
qed

section \<open>What the receiver reads is strings\<close>

text \<open>
  Every header value of a frame that \<open>parse_from_socket\<close> returns is a string. The
  pending receipts are integers as long as only \<open>send\<close> adds to them, so no step of the
  receiver removes one.
\<close>

lemma finish_frame_headers:
  "finish_frame cmd h sofar n = Inr (st', fr, m) \<Longrightarrow>
     pstate_headers st' = [] \<and> (\<forall>f. fr = Some f \<longrightarrow> headers f = h)"
  by (auto simp: finish_frame_def Frame_new_def split: if_splits)

lemma body_nul_headers:
  "body_nul cmd h sofar data n = Inr (st', fr, m) \<Longrightarrow>
     (pstate_headers st' = [] \<or> pstate_headers st' = h) \<and> (\<forall>f. fr = Some f \<longrightarrow> headers f = h)"
  by (auto simp: body_nul_def split: if_splits prod.splits dest: finish_frame_headers)

lemma body_len_headers:
  "body_len cmd h sofar data n b = Inr (st', fr, m) \<Longrightarrow>
     (pstate_headers st' = [] \<or> pstate_headers st' = h) \<and> (\<forall>f. fr = Some f \<longrightarrow> headers f = h)"
  by (auto simp: body_len_def Let_def split: if_splits dest: finish_frame_headers)

lemma parse_body_headers:
  "parse_body cmd h data n = Inr (st', fr, m) \<Longrightarrow>
     (pstate_headers st' = [] \<or> pstate_headers st' = h) \<and> (\<forall>f. fr = Some f \<longrightarrow> headers f = h)"
  by (auto simp: parse_body_def split: if_splits sum.splits dest: body_nul_headers body_len_headers)

lemma headers_phase_headers:
  assumes "headers_phase cmd sofar data n = Inr (st', fr, m)"
  shows "(\<forall>kv \<in> set (pstate_headers st'). \<exists>s. snd kv = PyStr s)
     \<and> (\<forall>f. fr = Some f \<longrightarrow> (\<forall>kv \<in> set (headers f). \<exists>s. snd kv = PyStr s))"
proof (cases "py_in [NL, NL] data")
  case False
  with assms show ?thesis by (auto simp: headers_phase_def)
next
  case True
  obtain hs sep rest where p: "py_partition (concat (sofar @ [data])) [NL, NL] = (hs, sep, rest)"
    by (cases "py_partition (concat (sofar @ [data])) [NL, NL]") auto
  with assms True have "parse_body cmd (parse_header_block hs) rest (n + (length hs + length sep)) = Inr (st', fr, m)"
    by (simp add: headers_phase_def)
  from parse_body_headers[OF this] parse_header_block_all_str[of hs]
  show ?thesis by auto
qed

lemma command_phase_headers:
  assumes "command_phase sofar data n = Inr (st', fr, m)"
  shows "(\<forall>kv \<in> set (pstate_headers st'). \<exists>s. snd kv = PyStr s)
     \<and> (\<forall>f. fr = Some f \<longrightarrow> (\<forall>kv \<in> set (headers f). \<exists>s. snd kv = PyStr s))"
proof (cases "py_in [NL] data")
  case False
  with assms show ?thesis by (auto simp: command_phase_def)
next
  case True
  obtain e sep rest where p: "py_partition data [NL] = (e, sep, rest)"
    by (cases "py_partition data [NL]") auto
  with assms True have "headers_phase (concat (sofar @ [e])) [] rest (n + (length e + length sep)) = Inr (st', fr, m)"
    by (simp add: command_phase_def)
  from headers_phase_headers[OF this] show ?thesis .
qed

lemma start_phase_headers:
  assumes "start_phase chunk = Inr (st', fr, m)"
  shows "(\<forall>kv \<in> set (pstate_headers st'). \<exists>s. snd kv = PyStr s)
     \<and> (\<forall>f. fr = Some f \<longrightarrow> (\<forall>kv \<in> set (headers f). \<exists>s. snd kv = PyStr s))"
  using assms
  by (auto simp: start_phase_def Let_def Frame_new_def heartbeat_invalid split: if_splits dest!: command_phase_headers)

lemma feed_headers:
  assumes "feed st chunk = Inr (st', fr, m)"
    and "\<forall>kv \<in> set (pstate_headers st). \<exists>s. snd kv = PyStr s"
  shows "(\<forall>kv \<in> set (pstate_headers st'). \<exists>s. snd kv = PyStr s)
     \<and> (\<forall>f. fr = Some f \<longrightarrow> (\<forall>kv \<in> set (headers f). \<exists>s. snd kv = PyStr s))"
proof (cases st)
  case Start
  with assms show ?thesis using start_phase_headers by simp
next
  case (AfterHeartbeat d c)
  with assms show ?thesis using command_phase_headers by simp
next
  case (InCommand sofar)
  with assms show ?thesis using command_phase_headers by simp
next
  case (InHeaders cmd sofar)
  with assms show ?thesis using headers_phase_headers by simp
next
  case (InBodyLen cmd h sofar b)
  with assms have "body_len cmd h sofar chunk 0 b = Inr (st', fr, m)" by simp
  from body_len_headers[OF this] assms(2) InBodyLen show ?thesis by auto
next
  case (InBodyNul cmd h sofar)
  with assms have "body_nul cmd h sofar chunk 0 = Inr (st', fr, m)" by simp
  from body_nul_headers[OF this] assms(2) InBodyNul show ?thesis by auto
next
  case Finished
  with assms show ?thesis by simp
qed

lemma pfs_loop_headers:
  assumes "pfs_loop st s = Some y"
  shows "(\<forall>kv \<in> set (pstate_headers st). \<exists>v. snd kv = PyStr v) \<longrightarrow>
     (\<forall>f s'. y = (Inr f, s') \<longrightarrow> (\<forall>kv \<in> set (headers f). \<exists>v. snd kv = PyStr v))"
  using assms
proof (induction rule: pfs_loop.raw_induct[rotated 1, consumes 1, case_names step])
  case (step pfs_loop st s y)
  show ?case
  proof (intro allI impI)
    fix f s'
    assume inv: "\<forall>kv \<in> set (pstate_headers st). \<exists>v. snd kv = PyStr v" and y: "y = (Inr f, s')"
    obtain r s1 where pk: "recv_peek s 4096 = (r, s1)"
      by (cases "recv_peek s 4096")
    show "\<forall>kv \<in> set (headers f). \<exists>v. snd kv = PyStr v"
    proof (cases r)
      case (Inl e)
      with step(2) pk y show ?thesis by simp
    next
      case (Inr cur_data)
      show ?thesis
      proof (cases "feed st cur_data")
        case (Inl e)
        with step(2) pk Inr y show ?thesis by simp
      next
        case fd: (Inr res)
        obtain st' fr n where res: "res = (st', fr, n)"
          by (cases res)
        note fh = feed_headers[OF fd[unfolded res] inv]
        show ?thesis
        proof (cases fr)
          case (Some g)
          with step(2) pk Inr fd res y have "g = f" by simp
          with fh Some show ?thesis by simp
        next
          case None
          obtain r2 s2 where rc: "recv s1 n = (r2, s2)"
            by (cases "recv s1 n")
          show ?thesis
          proof (cases r2)
            case (Inl e)
            with step(2) pk Inr fd res None rc y show ?thesis by simp
          next
            case rb: (Inr b)
            from step(2) pk Inr fd res None rc rb have "pfs_loop st' s2 = Some y"
              by simp
            from step(1)[OF this] fh y show ?thesis by blast
          qed
        qed
      qed
    qed
  qed
qed

lemma parse_from_socket_str_headers:
  "parse_from_socket s = Some (Inr f, s') \<Longrightarrow> \<forall>kv \<in> set (headers f). \<exists>v. snd kv = PyStr v"
  using pfs_loop_headers[of Start s "(Inr f, s')"] by (simp add: parse_from_socket_def)

lemma str_headers_get:
  "\<forall>kv \<in> set h. \<exists>s. snd kv = PyStr s \<Longrightarrow> dict_get h k = PyNone \<or> (\<exists>s. dict_get h k = PyStr s)"
  by (induction h) (auto simp: dict_get_def split: if_splits)

lemma recv_dispatch_keeps_receipts:
  assumes "\<forall>kv \<in> set (headers cur). \<exists>s. snd kv = PyStr s"
    and "\<forall>v \<in> no_receipt c. \<exists>i. v = PyInt i"
    and "recv_dispatch c cur w = Inr (c', w')"
  shows "no_receipt c' = no_receipt c"
proof -
  have "dict_get (headers cur) ''receipt-id'' \<notin> no_receipt c"
    using str_headers_get[OF assms(1), of "''receipt-id''"] assms(2) by auto
  with assms(3) show ?thesis
    by (auto simp: recv_dispatch_def Frame_new_def ALL_CMDS_def CLIENT_CMDS_def put_new_def split: if_splits)
qed

lemma run_recv_step_keeps_receipts:
  assumes "\<forall>v \<in> no_receipt c. \<exists>i. v = PyInt i"
    and "run_recv_step c w = Some (c', w')"
  shows "no_receipt c' = no_receipt c"
proof (cases "recv_glet c = Some Running \<and> \<not> stopping c \<and> sock c \<noteq> None")
  case False
  with assms(2) show ?thesis
    by (auto simp: run_recv_step_def split: option.splits glet.splits if_splits)
next
  case True
  then obtain s where sk: "sock c = Some s" by auto
  show ?thesis
  proof (cases "parse_from_socket s")
    case None
    with assms(2) True sk show ?thesis by (simp add: run_recv_step_def)
  next
    case (Some res)
    obtain r s' where res: "res = (r, s')" by (cases res)
    show ?thesis
    proof (cases r)
      case (Inl e)
      with assms(2) True sk Some res show ?thesis
        by (auto simp: run_recv_step_def exec_socket_error split: if_splits)
    next
      case (Inr cur)
      from parse_from_socket_str_headers[of s cur s'] Some res Inr
      have h: "\<forall>kv \<in> set (headers cur). \<exists>v. snd kv = PyStr v" by simp
      show ?thesis
      proof (cases "recv_dispatch (c\<lparr>sock := Some s'\<rparr>) cur w")
        case (Inl e)
        with assms(2) True sk Some res Inr show ?thesis
          by (auto simp: run_recv_step_def)
      next
        case d: (Inr cw)
        obtain c1 w1 where cw: "cw = (c1, w1)" by (cases cw)
        from recv_dispatch_keeps_receipts[OF h _ d[unfolded cw]] assms(1)
        have "no_receipt c1 = no_receipt c" by simp
        with assms(2) True sk Some res Inr d cw show ?thesis
          by (auto simp: run_recv_step_def)
      qed
    qed
  qed
qed

section \<open>The claims about the codec\<close>

text \<open>
  Claim C1. For every valid serialized frame \<open>B\<close> and every way of splitting \<open>B\<close> into
  non-empty chunks, feeding the chunks one at a time gives the same frame as parsing
  \<open>B\<close> in one call, and the consumed-byte counts reported after the chunks add up to
  \<open>len(B)\<close>, also when a chunk ends between the two newlines that end the header
  block, or inside the header block.

  The parser does not do this. \<open>B\<close> is the serialization of \<open>SEND\<close> with the header
  \<open>k:v\<close>, 11 bytes, and parses in one call. Cut between the two newlines, every byte
  is reported consumed (9, then 2) and no frame comes out: the header loop looks for
  the two newlines in the chunk it has just received, not in what it has accumulated.
  Cut inside the header block, the frame comes out, but the counts are 7 and 6: the
  header bytes of the first chunk are counted again with the second.
\<close>

theorem chunked_parse_differs_from_one_shot:
  "fst (serialize kv_frame) = ''SEND'' @ [NL] @ ''k:v'' @ [NL, NL, NUL]
   \<and> length (''SEND'' @ [NL] @ ''k:v'' @ [NL, NL, NUL]) = 11
   \<and> parse (''SEND'' @ [NL] @ ''k:v'' @ [NL, NL, NUL]) = Inr kv_frame
   \<and> feed_chunks Start [''SEND'' @ [NL] @ ''k:v'' @ [NL], [NL, NUL]] = Inr (None, [9, 2])
   \<and> feed_chunks Start [''SEND'' @ [NL] @ ''k:'', ''v'' @ [NL, NL, NUL]]
       = Inr (Some kv_frame, [7, 6])"
  by code_simp

text \<open>
  Claim C2. For every frame \<open>F\<close> with a valid command, string header values without
  newline, keys without colon and a body without NUL, \<open>Frame.parse(F.serialize())\<close> is
  \<open>F\<close> up to the \<open>content-length\<close> header that \<open>serialize\<close> adds, also when \<open>F\<close> has no
  headers.

  The code does not do this. A frame with a body gets a \<open>content-length\<close> header from
  \<open>serialize\<close>, and the parser raises \<open>TypeError\<close> on every \<open>content-length\<close> header. A
  frame without headers comes back with the one header \<open>'': ''\<close>. (Without a body
  and with at least one header the frame does come back: \<open>round_trip_without_body\<close>.)
\<close>

theorem round_trip_fails:
  "parse (fst (serialize
      \<lparr>command = ''SEND'', headers = [(''destination'', PyStr ''/q'')], body = ''hi''\<rparr>))
     = Inl TypeError
   \<and> parse (fst (serialize \<lparr>command = ''DISCONNECT'', headers = [], body = []\<rparr>))
     = Inr \<lparr>command = ''DISCONNECT'', headers = [([], PyStr [])], body = []\<rparr>
   \<and> snd (serialize \<lparr>command = ''DISCONNECT'', headers = [], body = []\<rparr>)
     = \<lparr>command = ''DISCONNECT'', headers = [], body = []\<rparr>
   \<and> \<not> frame_eq \<lparr>command = ''DISCONNECT'', headers = [([], PyStr [])], body = []\<rparr>
         \<lparr>command = ''DISCONNECT'', headers = [], body = []\<rparr>"
  by code_simp

text \<open>
  Claim C3. When the parser reaches the body and a \<open>content-length\<close> header with value
  \<open>L\<close> is present, it accumulates exactly \<open>L + 1\<close> bytes after the header block, fails
  with \<open>'Frame not terminated with null byte.'\<close> if and only if the byte at offset \<open>L\<close>
  is not NUL, and otherwise returns the first \<open>L\<close> bytes as the body.

  The code does not do this. The header value is the string cut out of the header
  line, and \<open>headers['content-length'] + 1\<close> raises \<open>TypeError\<close>: with \<open>content-length:3\<close>
  the well-terminated body \<open>abc\<close> is not returned, and the body \<open>abcX\<close> fails with
  \<open>TypeError\<close>, not with the missing-terminator error. (So does every header block
  with a \<open>content-length\<close> key: \<open>content_length_raises\<close>.)
\<close>

theorem content_length_frame_raises_TypeError:
  "parse (''SEND'' @ [NL] @ ''content-length:3'' @ [NL, NL] @ ''abc'' @ [NUL]) = Inl TypeError
   \<and> parse (''SEND'' @ [NL] @ ''content-length:3'' @ [NL, NL] @ ''abcX'') = Inl TypeError
   \<and> feed Start (''SEND'' @ [NL] @ ''content-length:3'' @ [NL, NL] @ ''abcX'') = Inl TypeError"
  by code_simp

text \<open>
  Claim C4. A lone newline byte fed to the parser, with nothing else pending, gives a
  \<open>HEARTBEAT\<close> frame, whose construction succeeds, and 1 byte consumed; a newline
  just before a full frame does not corrupt the parse of that frame.

  The code does not do the first. The leading-newline loop strips the byte and yields
  \<open>(None, 1)\<close>; the heartbeat check after the loop looks at data from which the newlines
  are already stripped. \<open>Frame('HEARTBEAT', None)\<close> raises, since \<open>HEARTBEAT\<close> is not in
  \<open>ALL_CMDS\<close>, and no frame the parser delivers is a \<open>HEARTBEAT\<close>
  (\<open>feed_never_heartbeat\<close>). The second half holds (\<open>parse_after_newline\<close>); the last
  line shows it at the frame \<open>SEND\<close> with the header \<open>k:v\<close>.
\<close>

theorem lone_newline_is_not_heartbeat:
  "feed Start [NL] = Inr (Start, None, 1)
   \<and> parse [NL] = Inl (IncompleteFrame 1)
   \<and> Frame_new ''HEARTBEAT'' [] [] = Inl (InvalidCommand ''HEARTBEAT'')
   \<and> parse ([NL] @ ''SEND'' @ [NL] @ ''k:v'' @ [NL, NL, NUL]) = Inr kv_frame"
  by code_simp

text \<open>
  Claim C6. For every frame with a valid command, \<open>serialize\<close> gives the command and a
  newline, then each header as \<open>key:value\<close> and a newline, then one newline, then the
  body, then one NUL; a frame with no headers gives the command, two newlines, the
  body and the NUL, with no extra bytes.

  The code does not do this for a frame that has no header after \<open>serialize\<close> has run:
  \<open>'\n'.join\<close> of no lines is empty and \<open>'\n\n'\<close> follows the newline of the command, so
  \<open>Frame("DISCONNECT", {})\<close> gives three newlines. (With at least one header the bytes
  are the claimed ones: \<open>serialize_with_headers\<close>.)
\<close>

theorem serialize_without_headers_has_three_newlines:
  "Frame_new ''DISCONNECT'' [] [] = Inr \<lparr>command = ''DISCONNECT'', headers = [], body = []\<rparr>
   \<and> fst (serialize \<lparr>command = ''DISCONNECT'', headers = [], body = []\<rparr>)
       = ''DISCONNECT'' @ [NL, NL, NL, NUL]
   \<and> ''DISCONNECT'' @ [NL, NL, NL, NUL] \<noteq> ''DISCONNECT'' @ [NL, NL] @ [] @ [NUL]"
  by code_simp

section \<open>The claims about the connection\<close>

text \<open>
  Claim C5, as the code has it. No step of the receiver calls a handler: the world of
  the caller is the same after every step, and \<open>on_message\<close> stays what the constructor
  stored. The dispatch of a \<open>MESSAGE\<close> frame returns the connection it was given, with
  one more frame object, \<open>ACK\<close> with no headers and no body, and the reference to it at
  the end of the queue when the frame has an \<open>ack\<close> header, and unchanged otherwise:
  no other field of the connection differs. The receiver step that parses a \<open>MESSAGE\<close>
  frame from the socket does that and keeps the socket as \<open>parse_from_socket\<close> left
  it; nothing else.
\<close>

theorem receiver_calls_no_handler:
  "(run_recv_step c w = Some (c', w') \<longrightarrow> w' = w \<and> on_message c' = on_message c)
   \<and> (command cur = ''MESSAGE'' \<longrightarrow>
         recv_dispatch c cur w
           = Inr (if dict_contains (headers cur) ''ack''
                  then c\<lparr>send_q := send_q c @ [length (frames c)],
                         frames := frames c @ [\<lparr>command = ''ACK'', headers = [], body = []\<rparr>]\<rparr>
                  else c,
                  w))
   \<and> (recv_glet c = Some Running \<and> \<not> stopping c \<and> sock c = Some s
         \<and> parse_from_socket s = Some (Inr cur, s') \<and> command cur = ''MESSAGE'' \<longrightarrow>
         run_recv_step c w
           = Some (if dict_contains (headers cur) ''ack''
                   then c\<lparr>sock := Some s',
                          send_q := send_q c @ [length (frames c)],
                          frames := frames c @ [\<lparr>command = ''ACK'', headers = [], body = []\<rparr>]\<rparr>
                   else c\<lparr>sock := Some s'\<rparr>,
                   w))"
proof -
  have world: "run_recv_step c w = Some (c', w') \<longrightarrow> w' = w \<and> on_message c' = on_message c"
    by (rule impI) (rule run_recv_step_world)
  have dispatch: "recv_dispatch d cur w
           = Inr (if dict_contains (headers cur) ''ack''
                  then d\<lparr>send_q := send_q d @ [length (frames d)],
                         frames := frames d @ [\<lparr>command = ''ACK'', headers = [], body = []\<rparr>]\<rparr>
                  else d,
                  w)"
    if "command cur = ''MESSAGE''" for d
    using that
    by (simp add: recv_dispatch_def Frame_new_def ALL_CMDS_def CLIENT_CMDS_def put_new_def)
  have step: "run_recv_step c w
           = Some (if dict_contains (headers cur) ''ack''
                   then c\<lparr>sock := Some s',
                          send_q := send_q c @ [length (frames c)],
                          frames := frames c @ [\<lparr>command = ''ACK'', headers = [], body = []\<rparr>]\<rparr>
                   else c\<lparr>sock := Some s'\<rparr>,
                   w)"
    if "recv_glet c = Some Running" "\<not> stopping c" "sock c = Some s"
      "parse_from_socket s = Some (Inr cur, s')" "command cur = ''MESSAGE''"
    using that dispatch[OF that(5), of "c\<lparr>sock := Some s'\<rparr>"]
    by (simp add: run_recv_step_def)
  from world dispatch step show ?thesis
    by blast
qed

text \<open>
  The connection that registered \<open>record_frame\<close>, running on a socket that holds one
  \<open>MESSAGE\<close> frame with an \<open>ack\<close> header: the receiver step returns, the world is
  still empty, the handler is still registered, and the connection differs from the
  one before the step by the socket's log and by the \<open>ACK\<close> in the queue.
\<close>

theorem receiver_calls_no_handler_witness:
  "recv_glet (running_on fresh_conn (wire_socket message_wire)) = Some Running
   \<and> \<not> stopping (running_on fresh_conn (wire_socket message_wire))
   \<and> sock (running_on fresh_conn (wire_socket message_wire)) = Some (wire_socket message_wire)
   \<and> parse_from_socket (wire_socket message_wire)
       = Some (Inr message_frame, \<lparr>rbuf = message_wire, net = [], log = [Peeked message_wire]\<rparr>)
   \<and> command message_frame = ''MESSAGE'' \<and> dict_contains (headers message_frame) ''ack''
   \<and> run_recv_step (running_on fresh_conn (wire_socket message_wire)) []
       = Some ((running_on fresh_conn (wire_socket message_wire))
                 \<lparr>sock := Some \<lparr>rbuf = message_wire, net = [], log = [Peeked message_wire]\<rparr>,
                  send_q := [0], frames := [ack_frame]\<rparr>, [])
   \<and> recv_dispatch (running_on fresh_conn (wire_socket message_wire)) message_frame []
       = Inr ((running_on fresh_conn (wire_socket message_wire))
                 \<lparr>send_q := [0], frames := [ack_frame]\<rparr>, [])
   \<and> on_message ((running_on fresh_conn (wire_socket message_wire))
                 \<lparr>sock := Some \<lparr>rbuf = message_wire, net = [], log = [Peeked message_wire]\<rparr>,
                  send_q := [0], frames := [ack_frame]\<rparr>)
       = Some record_frame"
proof -
  let ?c = "running_on fresh_conn (wire_socket message_wire)"
  let ?s' = "\<lparr>rbuf = message_wire, net = [], log = [Peeked message_wire]\<rparr>"
  have h: "recv_glet ?c = Some Running" "\<not> stopping ?c" "sock ?c = Some (wire_socket message_wire)"
    by (simp_all add: running_on_def fresh_conn_fields)
  have msg: "command message_frame = ''MESSAGE''" "dict_contains (headers message_frame) ''ack''"
    by (simp_all add: message_frame_def dict_contains_def)
  have q: "send_q ?c = []" "frames ?c = []" "on_message ?c = Some record_frame"
    by (simp_all add: running_on_def fresh_conn_fields)
  note inst = receiver_calls_no_handler[of ?c "[]" _ _ message_frame "wire_socket message_wire" ?s']
  from inst h msg message_on_socket q
  have step: "run_recv_step ?c []
       = Some (?c\<lparr>sock := Some ?s', send_q := [0], frames := [ack_frame]\<rparr>, [])"
    by (simp add: ack_frame_def)
  from inst msg q
  have disp: "recv_dispatch ?c message_frame []
       = Inr (?c\<lparr>send_q := [0], frames := [ack_frame]\<rparr>, [])"
    by (simp add: ack_frame_def)
  have om: "on_message (?c\<lparr>sock := Some ?s', send_q := [0], frames := [ack_frame]\<rparr>)
       = Some record_frame"
    using q by simp
  from h msg message_on_socket step disp om show ?thesis
    by blast
qed

text \<open>
  Claim C5, as stated: every \<open>MESSAGE\<close> frame the receiver gets is handed to the
  registered message handler \<open>on_message\<close>. With \<open>record_frame\<close> registered, the receiver
  parses the \<open>MESSAGE\<close> frame from the socket and leaves the world empty, where a call
  of the handler would have left the frame in it.
\<close>

theorem message_not_handed_to_on_message:
  "on_message (running_on fresh_conn (wire_socket message_wire)) = Some record_frame
   \<and> parse_from_socket (wire_socket message_wire)
       = Some (Inr message_frame, \<lparr>rbuf = message_wire, net = [], log = [Peeked message_wire]\<rparr>)
   \<and> command message_frame = ''MESSAGE''
   \<and> map_option snd (run_recv_step (running_on fresh_conn (wire_socket message_wire)) [])
       = Some []
   \<and> record_frame message_frame [] = [message_frame]"
  by (simp add: run_recv_step_def running_on_def message_on_socket recv_dispatch_def
      dict_contains_def Frame_new_def ALL_CMDS_def CLIENT_CMDS_def record_frame_def
      fresh_conn_fields message_frame_def)

text \<open>
  Claim C7. When the receiver gets a \<open>RECEIPT\<close> frame whose \<open>receipt-id\<close> header matches
  an id in the pending-receipt set (filled by \<open>send\<close> with the counter value it used as
  the \<open>receipt\<close> header), that id is removed from the set, and a receipt for an unknown
  id does nothing; after \<open>send\<close> has assigned the receipt 0, a \<open>RECEIPT\<close> frame with
  \<open>receipt-id\<close> 0 removes 0 from the set.

  The code does not do this. \<open>send\<close> puts the integer 0 in the set; the parser gives the
  header value as the string \<open>'0'\<close>; the string is not in the set, and the set keeps 0.
  (No step of the receiver removes a pending receipt: \<open>run_recv_step_keeps_receipts\<close>.)
\<close>

theorem receipt_id_never_matches:
  "Connection_new ''larbroker'' [] [] (Some record_frame) None None True = Inr fresh_conn
   \<and> send fresh_conn ''/queue/x'' ''hello'' [] = Inr conn_after_send
   \<and> no_receipt conn_after_send = {PyInt 0}
   \<and> parse receipt_wire
       = Inr \<lparr>command = ''RECEIPT'', headers = [(''receipt-id'', PyStr ''0'')], body = []\<rparr>
   \<and> map_option (no_receipt \<circ> fst)
       (run_recv_step (running_on conn_after_send (wire_socket receipt_wire)) [])
       = Some {PyInt 0}"
proof -
  have p: "parse receipt_wire
       = Inr \<lparr>command = ''RECEIPT'', headers = [(''receipt-id'', PyStr ''0'')], body = []\<rparr>"
    by code_simp
  have n: "no_receipt conn_after_send = {PyInt 0}"
    by (simp add: conn_after_send_fields)
  have r: "map_option (no_receipt \<circ> fst)
       (run_recv_step (running_on conn_after_send (wire_socket receipt_wire)) [])
       = Some {PyInt 0}"
    by (simp add: run_recv_step_def running_on_def receipt_on_socket recv_dispatch_def
        dict_get_def dict_contains_def conn_after_send_fields fresh_conn_fields)
  show ?thesis
    using fresh_conn_eq conn_after_send_eq n p r by blast
qed

text \<open>
  Claim C8, as the code has it. After \<open>Connection(...)\<close> has started the engine, whatever
  transitions \<open>ts\<close> the greenlets have made (a failure handler of the sender or the
  receiver, a successful \<open>_reconnect\<close>):
  \<^item> the two events are never both set, not even between the two statements of a
    transition;
  \<^item> after every completed transition exactly one of them is set;
  \<^item> the next transition \<open>t\<close> goes through one state \<open>mid\<close> between its two statements.
    Both events are clear in \<open>mid\<close> exactly when \<open>t\<close> changes the state: a failure
    handler entered while \<open>sock_ready\<close> is set, or the end of \<open>_reconnect\<close> entered while
    \<open>sock_broken\<close> is set. In every other case \<open>mid\<close> has the events of the state before
    \<open>t\<close>, which are those of the state after it: a failure handler entered while
    \<open>sock_broken\<close> is set stays at \<open>sock_ready\<close> clear and \<open>sock_broken\<close> set.
\<close>

theorem flags_never_both_set:
  assumes "Connection_new addr lg pc on_msg on_rcpt on_err prot = Inr c0"
  shows "(\<forall>c' \<in> set (engine_states ts c0). \<not> (sock_ready c' \<and> sock_broken c'))
         \<and> sock_ready (engine_run ts c0) \<noteq> sock_broken (engine_run ts c0)
         \<and> (\<exists>mid. states_after (stmts_of t) (engine_run ts c0)
                      = [mid, exec_stmts (stmts_of t) (engine_run ts c0)]
               \<and> ((\<not> sock_ready mid \<and> \<not> sock_broken mid)
                    = (t = SocketFailed \<and> sock_ready (engine_run ts c0)
                       \<or> t = Reconnected \<and> sock_broken (engine_run ts c0)))
               \<and> (\<not> (t = SocketFailed \<and> sock_ready (engine_run ts c0)
                       \<or> t = Reconnected \<and> sock_broken (engine_run ts c0)) \<longrightarrow>
                     sock_ready mid = sock_ready (engine_run ts c0)
                     \<and> sock_broken mid = sock_broken (engine_run ts c0)
                     \<and> sock_ready (exec_stmts (stmts_of t) (engine_run ts c0))
                         = sock_ready (engine_run ts c0)
                     \<and> sock_broken (exec_stmts (stmts_of t) (engine_run ts c0))
                         = sock_broken (engine_run ts c0)))"
proof -
  from assms have "\<not> sock_ready c0 \<and> sock_broken c0"
    unfolding Connection_new_def by (rule start_flags)
  then have "sock_ready c0 \<noteq> sock_broken c0"
    by simp
  then have inv: "(\<forall>c' \<in> set (engine_states ts c0). \<not> (sock_ready c' \<and> sock_broken c'))
         \<and> sock_ready (engine_run ts c0) \<noteq> sock_broken (engine_run ts c0)"
    by (rule engine_invariant)
  define c where "c = engine_run ts c0"
  have one: "sock_ready c \<noteq> sock_broken c"
    using inv by (simp add: c_def)
  have mid: "\<exists>mid. states_after (stmts_of t) c = [mid, exec_stmts (stmts_of t) c]
               \<and> ((\<not> sock_ready mid \<and> \<not> sock_broken mid)
                    = (t = SocketFailed \<and> sock_ready c \<or> t = Reconnected \<and> sock_broken c))
               \<and> (\<not> (t = SocketFailed \<and> sock_ready c \<or> t = Reconnected \<and> sock_broken c) \<longrightarrow>
                     sock_ready mid = sock_ready c \<and> sock_broken mid = sock_broken c
                     \<and> sock_ready (exec_stmts (stmts_of t) c) = sock_ready c
                     \<and> sock_broken (exec_stmts (stmts_of t) c) = sock_broken c)"
  proof (cases t)
    case SocketFailed
    with one show ?thesis
      by (intro exI[of _ "exec_stmt ReadyClear c"])
        (auto simp: socket_error_stmts_def exec_stmts_def)
  next
    case Reconnected
    with one show ?thesis
      by (intro exI[of _ "exec_stmt BrokenClear c"])
        (auto simp: reconnected_stmts_def exec_stmts_def)
  qed
  from inv mid show ?thesis
    unfolding c_def by blast
qed

text \<open>
  A run with two reconnects and a failure of each worker in between. A failure handler
  entered after the first reconnect passes through both events clear; a failure
  handler entered right after \<open>start\<close>, with \<open>sock_broken\<close> set, does not.
\<close>

theorem flags_never_both_set_witness:
  "Connection_new ''larbroker'' [] [] (Some record_frame) None None True = Inr fresh_conn
   \<and> list_all (\<lambda>c'. \<not> (sock_ready c' \<and> sock_broken c'))
       (engine_states [Reconnected, SocketFailed, SocketFailed, Reconnected] fresh_conn)
   \<and> sock_ready (engine_run [Reconnected, SocketFailed, SocketFailed, Reconnected] fresh_conn)
   \<and> \<not> sock_broken (engine_run [Reconnected, SocketFailed, SocketFailed, Reconnected] fresh_conn)
   \<and> sock_ready (engine_run [Reconnected] fresh_conn)
   \<and> map sock_ready (states_after (stmts_of SocketFailed) (engine_run [Reconnected] fresh_conn))
       = [False, False]
   \<and> map sock_broken (states_after (stmts_of SocketFailed) (engine_run [Reconnected] fresh_conn))
       = [False, True]
   \<and> sock_broken (engine_run [] fresh_conn)
   \<and> map sock_ready (states_after (stmts_of SocketFailed) (engine_run [] fresh_conn))
       = [False, False]
   \<and> map sock_broken (states_after (stmts_of SocketFailed) (engine_run [] fresh_conn))
       = [True, True]"
proof -
  have r: "sock_ready (engine_run [Reconnected, SocketFailed, SocketFailed, Reconnected] fresh_conn)"
    by (simp add: fresh_conn_fields exec_stmts_def socket_error_stmts_def reconnected_stmts_def)
  have r1: "sock_ready (engine_run [Reconnected] fresh_conn)"
    "\<not> sock_broken (engine_run [Reconnected] fresh_conn)"
    "sock_broken (engine_run [] fresh_conn)" "\<not> sock_ready (engine_run [] fresh_conn)"
    by (simp_all add: fresh_conn_fields exec_stmts_def reconnected_stmts_def)
  have fin: "\<not> sock_ready (exec_stmts (stmts_of SocketFailed) c)"
    "sock_broken (exec_stmts (stmts_of SocketFailed) c)" for c :: "frame list connection"
    by (simp_all add: exec_socket_error)
  from flags_never_both_set[OF fresh_conn_eq,
      of "[Reconnected, SocketFailed, SocketFailed, Reconnected]"] r
  have a: "list_all (\<lambda>c'. \<not> (sock_ready c' \<and> sock_broken c'))
       (engine_states [Reconnected, SocketFailed, SocketFailed, Reconnected] fresh_conn)
     \<and> \<not> sock_broken (engine_run [Reconnected, SocketFailed, SocketFailed, Reconnected] fresh_conn)"
    by (simp add: list_all_iff)
  from flags_never_both_set[OF fresh_conn_eq, of "[Reconnected]" SocketFailed]
  obtain mid1 where m1:
    "states_after (stmts_of SocketFailed) (engine_run [Reconnected] fresh_conn)
       = [mid1, exec_stmts (stmts_of SocketFailed) (engine_run [Reconnected] fresh_conn)]"
    "(\<not> sock_ready mid1 \<and> \<not> sock_broken mid1)
       = (SocketFailed = SocketFailed \<and> sock_ready (engine_run [Reconnected] fresh_conn)
          \<or> SocketFailed = Reconnected \<and> sock_broken (engine_run [Reconnected] fresh_conn))"
    by blast
  from m1(2) r1(1) have m1': "\<not> sock_ready mid1" "\<not> sock_broken mid1"
    by simp_all
  have b: "map sock_ready (states_after (stmts_of SocketFailed) (engine_run [Reconnected] fresh_conn))
       = [False, False]
     \<and> map sock_broken (states_after (stmts_of SocketFailed) (engine_run [Reconnected] fresh_conn))
       = [False, True]"
    unfolding m1(1) using m1' fin by simp
  from flags_never_both_set[OF fresh_conn_eq, of "[]" SocketFailed]
  obtain mid2 where m2:
    "states_after (stmts_of SocketFailed) (engine_run [] fresh_conn)
       = [mid2, exec_stmts (stmts_of SocketFailed) (engine_run [] fresh_conn)]"
    "\<not> (SocketFailed = SocketFailed \<and> sock_ready (engine_run [] fresh_conn)
          \<or> SocketFailed = Reconnected \<and> sock_broken (engine_run [] fresh_conn)) \<longrightarrow>
       sock_ready mid2 = sock_ready (engine_run [] fresh_conn)
       \<and> sock_broken mid2 = sock_broken (engine_run [] fresh_conn)"
    by blast
  from m2(2) r1(3,4) have m2': "\<not> sock_ready mid2" "sock_broken mid2"
    by simp_all
  have c: "map sock_ready (states_after (stmts_of SocketFailed) (engine_run [] fresh_conn))
       = [False, False]
     \<and> map sock_broken (states_after (stmts_of SocketFailed) (engine_run [] fresh_conn))
       = [True, True]"
    unfolding m2(1) using m2' fin by simp
  from fresh_conn_eq r a r1(1,3) b c show ?thesis
    by blast
qed

text \<open>
  Claim C8, as stated: while the engine is running exactly one of the two events holds
  at every instant, also at every intermediate step of a transition. After the
  first statement of \<open>_reconnect\<close>'s last two (\<open>sock_broken.clear()\<close>), and after the
  first statement of a failure handler that starts from the ready state
  (\<open>sock_ready.clear()\<close>), both events are clear.
\<close>

theorem flags_both_clear_inside_transition:
  "Connection_new ''larbroker'' [] [] (Some record_frame) None None True = Inr fresh_conn
   \<and> map sock_ready (engine_states [Reconnected, SocketFailed] fresh_conn)
       = [False, True, False, False]
   \<and> map sock_broken (engine_states [Reconnected, SocketFailed] fresh_conn)
       = [False, False, False, True]"
  by (simp add: fresh_conn_eq fresh_conn_fields exec_stmts_def socket_error_stmts_def
      reconnected_stmts_def)

text \<open>
  Claim C9. If the sender's write of the head frame of the outbound queue fails with a
  transport error, that frame is still at the head of the queue after the failure,
  neither lost nor duplicated, and it is the first frame retried once the connection
  is ready again; a frame leaves the queue only after its write has returned.

  In the model: the sender is at the test of its loop, not stopping, with a socket
  and with the frame object \<open>r\<close> at the head of the queue. The bytes it passes to
  \<open>sendall\<close> are the serialization of that frame. When \<open>sendall\<close> raises, the queue is
  what it was and the frame objects are what they were, but for the \<open>content-length\<close>
  that \<open>serialize\<close> may have stored in the head's headers (its command and its body are
  the same); the sender is back in \<open>sock_ready.wait()\<close> with \<open>sock_ready\<close> clear and
  \<open>sock_broken\<close> set, and cannot step. Whatever the others have done when the
  connection is ready again on some socket, the sender's first step leaves the wait,
  \<open>r\<close> is still the head, and its next step passes to \<open>sendall\<close> the serialization of
  that same frame, the very bytes of the failed write; that step drops the head if
  the write returns and keeps the queue if it fails again. A step changes the queue
  only when \<open>sendall\<close> returned, and then it drops the head.
\<close>

theorem failed_write_keeps_head:
  assumes "send_glet c = Some Running" and "\<not> stopping c"
    and "send_q c = r # rest" and "r < length (frames c)" and "sock c = Some s"
  shows "\<exists>c'.
           run_send_step c WriteFails = Some (c', Some (fst (serialize (frames c ! r))))
           \<and> send_q c' = r # rest
           \<and> frames c' = (frames c)[r := snd (serialize (frames c ! r))]
           \<and> command (frames c' ! r) = command (frames c ! r)
           \<and> body (frames c' ! r) = body (frames c ! r)
           \<and> fst (serialize (frames c' ! r)) = fst (serialize (frames c ! r))
           \<and> send_glet c' = Some Waiting \<and> \<not> sock_ready c' \<and> sock_broken c'
           \<and> run_send_step c' wr = None
           \<and> (\<forall>c2. others_ran c' c2 \<and> sock_ready c2 \<and> sock c2 \<noteq> None \<and> \<not> stopping c2 \<longrightarrow>
                 (\<exists>c3 c4. run_send_step c2 wr2 = Some (c3, None)
                    \<and> send_q c3 = send_q c2 \<and> hd (send_q c3) = r
                    \<and> frames c3 ! r = frames c' ! r
                    \<and> run_send_step c3 wr3 = Some (c4, Some (fst (serialize (frames c ! r))))
                    \<and> send_q c4 = (if wr3 = WriteOk then tl (send_q c2) else send_q c2)))
           \<and> (\<exists>c''. run_send_step c WriteOk = Some (c'', Some (fst (serialize (frames c ! r))))
                 \<and> send_q c'' = rest)
           \<and> (\<forall>c1 out. run_send_step c wr = Some (c1, out) \<and> send_q c1 \<noteq> send_q c \<longrightarrow>
                 wr = WriteOk \<and> send_q c1 = rest)"
proof -
  obtain bytes cur where ser: "serialize (frames c ! r) = (bytes, cur)"
    by (cases "serialize (frames c ! r)")
  have same: "command cur = command (frames c ! r)" "body cur = body (frames c ! r)"
    using ser by (auto simp: serialize_def Let_def)
  define c' where
    "c' = (exec_stmts socket_error_stmts (c\<lparr>frames := (frames c)[r := cur]\<rparr>))
            \<lparr>send_glet := Some Waiting\<rparr>"
  have step: "run_send_step c WriteFails = Some (c', Some bytes)"
    using assms ser by (simp add: run_send_step_def c'_def)
  have q: "send_q c' = r # rest" "send_glet c' = Some Waiting" "\<not> sock_ready c'"
      "sock_broken c'" "frames c' = (frames c)[r := cur]"
    using assms by (simp_all add: c'_def exec_socket_error)
  have blocked: "run_send_step c' wr = None"
    using q by (simp add: run_send_step_def)
  have again: "serialize cur = (bytes, cur)"
    using serialize_idem[of "frames c ! r"] ser by simp
  have at_r: "frames c' ! r = cur"
    using q(5) assms(4) by simp
  have retry: "\<exists>c3 c4. run_send_step c2 wr2 = Some (c3, None)
                    \<and> send_q c3 = send_q c2 \<and> hd (send_q c3) = r
                    \<and> frames c3 ! r = frames c' ! r
                    \<and> run_send_step c3 wr3 = Some (c4, Some bytes)
                    \<and> send_q c4 = (if wr3 = WriteOk then tl (send_q c2) else send_q c2)"
    if o: "others_ran c' c2" and rdy: "sock_ready c2" and sk: "sock c2 \<noteq> None"
      and ns: "\<not> stopping c2" for c2
  proof -
    from o q have g2: "send_glet c2 = Some Waiting"
      by (simp add: others_ran_def)
    from o q have tq: "take (Suc (length rest)) (send_q c2) = r # rest"
      by (simp add: others_ran_def)
    then obtain more where q2: "send_q c2 = r # more"
      by (cases "send_q c2") auto
    from o q assms have tf: "take (length (frames c)) (frames c2) = (frames c)[r := cur]"
      by (simp add: others_ran_def)
    have len: "r < length (frames c2)"
      using tf assms(4) by (metis length_list_update length_take min_less_iff_conj)
    have fr: "frames c2 ! r = cur"
      using tf assms(4) by (metis nth_list_update_eq nth_take)
    define c3 where "c3 = c2\<lparr>send_glet := Some Running\<rparr>"
    have s1: "run_send_step c2 wr2 = Some (c3, None)"
      using g2 rdy by (simp add: run_send_step_def c3_def)
    from sk obtain s2 where sk2: "sock c2 = Some s2"
      by auto
    have s2: "\<exists>c4. run_send_step c3 wr3 = Some (c4, Some bytes)
                \<and> send_q c4 = (if wr3 = WriteOk then tl (send_q c2) else send_q c2)"
      using ns q2 len fr again sk2
      by (cases wr3) (simp_all add: run_send_step_def c3_def exec_socket_error)
    have s3: "send_q c3 = send_q c2" "hd (send_q c3) = r" "frames c3 ! r = frames c' ! r"
      using q2 fr at_r by (simp_all add: c3_def)
    show ?thesis
      using s1 s2 s3 by blast
  qed
  have ok: "\<exists>c''. run_send_step c WriteOk = Some (c'', Some bytes) \<and> send_q c'' = rest"
    using assms ser by (simp add: run_send_step_def)
  have only: "wr = WriteOk \<and> send_q c1 = rest"
    if "run_send_step c wr = Some (c1, out)" and "send_q c1 \<noteq> send_q c" for c1 out
    using run_send_step_removes_only_on_success[OF that] assms(3) by simp
  have b: "fst (serialize (frames c ! r)) = bytes" "snd (serialize (frames c ! r)) = cur"
    using ser by simp_all
  have head: "command (frames c' ! r) = command (frames c ! r)"
    "body (frames c' ! r) = body (frames c ! r)"
    "fst (serialize (frames c' ! r)) = bytes"
    using at_r same again by simp_all
  show ?thesis
    unfolding b
    using step q blocked retry ok only head by blast
qed

text \<open>
  The connection after \<open>send("/queue/x", "hello")\<close>, running. The failed write passes the
  bytes of the \<open>SEND\<close> frame to \<open>sendall\<close> and leaves the queue \<open>[0]\<close>. After a reconnect,
  with an \<open>ACK\<close> enqueued behind it, the sender leaves its wait and writes the same
  bytes again: a second failure keeps the queue \<open>[0, 1]\<close>, a write that returns leaves
  \<open>[1]\<close>. Had the first write returned, the queue would be empty.
\<close>

theorem failed_write_keeps_head_witness:
  "send_glet conn_running = Some Running
   \<and> \<not> stopping conn_running
   \<and> send_q conn_running = [0]
   \<and> 0 < length (frames conn_running)
   \<and> sock conn_running = Some (wire_socket [])
   \<and> fst (serialize (frames conn_running ! 0)) = hello_wire
   \<and> run_send_step conn_running WriteFails = Some (conn_failed, Some hello_wire)
   \<and> send_q conn_failed = [0]
   \<and> frames conn_failed = [hello_serialized]
   \<and> send_glet conn_failed = Some Waiting \<and> \<not> sock_ready conn_failed \<and> sock_broken conn_failed
   \<and> run_send_step conn_failed WriteOk = None
   \<and> others_ran conn_failed conn_ready_again
   \<and> sock_ready conn_ready_again \<and> sock conn_ready_again \<noteq> None \<and> \<not> stopping conn_ready_again
   \<and> send_q conn_ready_again = [0, 1]
   \<and> (\<exists>c3 c4. run_send_step conn_ready_again WriteOk = Some (c3, None)
         \<and> send_q c3 = [0, 1] \<and> hd (send_q c3) = 0
         \<and> frames c3 ! 0 = hello_serialized
         \<and> run_send_step c3 WriteFails = Some (c4, Some hello_wire)
         \<and> send_q c4 = [0, 1])
   \<and> (\<exists>c3 c4. run_send_step conn_ready_again WriteOk = Some (c3, None)
         \<and> send_q c3 = [0, 1] \<and> hd (send_q c3) = 0
         \<and> frames c3 ! 0 = hello_serialized
         \<and> run_send_step c3 WriteOk = Some (c4, Some hello_wire)
         \<and> send_q c4 = [1])
   \<and> (\<exists>c''. run_send_step conn_running WriteOk = Some (c'', Some hello_wire)
         \<and> send_q c'' = [])"
proof -
  have h1: "send_glet conn_running = Some Running" and h2: "\<not> stopping conn_running"
    and h3: "send_q conn_running = [0]" and h4: "0 < length (frames conn_running)"
    and h5: "sock conn_running = Some (wire_socket [])"
    by (simp_all add: conn_running_def running_on_def conn_after_send_fields fresh_conn_fields)
  have fr0: "frames conn_running ! 0 = hello_frame"
    by (simp add: conn_running_def running_on_def conn_after_send_fields fresh_conn_fields
        hello_frame_def)
  have w: "fst (serialize (frames conn_running ! 0)) = hello_wire"
    unfolding fr0 by (simp add: hello_frame_serialize)
  have f: "send_q conn_failed = [0]" "frames conn_failed = [hello_serialized]"
    "send_glet conn_failed = Some Waiting" "\<not> sock_ready conn_failed" "sock_broken conn_failed"
    using h3 by (simp_all add: conn_failed_def)
  have a: "others_ran conn_failed conn_ready_again" "sock_ready conn_ready_again"
    "sock conn_ready_again \<noteq> None" "\<not> stopping conn_ready_again"
    "send_q conn_ready_again = [0, 1]"
    using h2 f by (simp_all add: conn_ready_again_def put_new_def others_ran_def conn_failed_def)
  from failed_write_keeps_head[OF h1 h2 h3 h4 h5, of WriteOk WriteOk WriteFails]
  obtain c' where c':
    "run_send_step conn_running WriteFails = Some (c', Some hello_wire)"
    "frames c' = (frames conn_running)[0 := snd (serialize (frames conn_running ! 0))]"
    "run_send_step c' WriteOk = None"
    "\<forall>c2. others_ran c' c2 \<and> sock_ready c2 \<and> sock c2 \<noteq> None \<and> \<not> stopping c2 \<longrightarrow>
       (\<exists>c3 c4. run_send_step c2 WriteOk = Some (c3, None)
          \<and> send_q c3 = send_q c2 \<and> hd (send_q c3) = 0
          \<and> frames c3 ! 0 = frames c' ! 0
          \<and> run_send_step c3 WriteFails = Some (c4, Some hello_wire)
          \<and> send_q c4 = (if WriteFails = WriteOk then tl (send_q c2) else send_q c2))"
    "\<exists>c''. run_send_step conn_running WriteOk = Some (c'', Some hello_wire) \<and> send_q c'' = []"
    unfolding w by blast
  have st: "run_send_step conn_running WriteFails = Some (conn_failed, Some hello_wire)"
    by (simp add: run_send_step_def conn_running_def running_on_def conn_after_send_fields
        fresh_conn_fields hello_frame_serialize[unfolded hello_frame_def] conn_failed_def
        exec_socket_error)
  with c'(1) have eq: "c' = conn_failed"
    by simp
  from c'(4) a eq
  obtain c3 c4 where r1: "run_send_step conn_ready_again WriteOk = Some (c3, None)"
    "send_q c3 = send_q conn_ready_again" "hd (send_q c3) = 0"
    "frames c3 ! 0 = frames conn_failed ! 0"
    "run_send_step c3 WriteFails = Some (c4, Some hello_wire)"
    "send_q c4 = (if WriteFails = WriteOk then tl (send_q conn_ready_again)
                  else send_q conn_ready_again)"
    by blast
  then have retry1: "\<exists>c3 c4. run_send_step conn_ready_again WriteOk = Some (c3, None)
         \<and> send_q c3 = [0, 1] \<and> hd (send_q c3) = 0
         \<and> frames c3 ! 0 = hello_serialized
         \<and> run_send_step c3 WriteFails = Some (c4, Some hello_wire)
         \<and> send_q c4 = [0, 1]"
    using a(5) f(2) by (intro exI[of _ c3] exI[of _ c4]) simp
  from failed_write_keeps_head[OF h1 h2 h3 h4 h5, of WriteOk WriteOk WriteOk]
  obtain d' where d':
    "run_send_step conn_running WriteFails = Some (d', Some hello_wire)"
    "\<forall>c2. others_ran d' c2 \<and> sock_ready c2 \<and> sock c2 \<noteq> None \<and> \<not> stopping c2 \<longrightarrow>
       (\<exists>c3 c4. run_send_step c2 WriteOk = Some (c3, None)
          \<and> send_q c3 = send_q c2 \<and> hd (send_q c3) = 0
          \<and> frames c3 ! 0 = frames d' ! 0
          \<and> run_send_step c3 WriteOk = Some (c4, Some hello_wire)
          \<and> send_q c4 = (if WriteOk = WriteOk then tl (send_q c2) else send_q c2))"
    unfolding w by blast
  from d'(1) st have eq2: "d' = conn_failed"
    by simp
  from d'(2) a eq2
  obtain e3 e4 where r2: "run_send_step conn_ready_again WriteOk = Some (e3, None)"
    "send_q e3 = send_q conn_ready_again" "hd (send_q e3) = 0"
    "frames e3 ! 0 = frames conn_failed ! 0"
    "run_send_step e3 WriteOk = Some (e4, Some hello_wire)"
    "send_q e4 = (if WriteOk = WriteOk then tl (send_q conn_ready_again)
                  else send_q conn_ready_again)"
    by blast
  then have retry2: "\<exists>c3 c4. run_send_step conn_ready_again WriteOk = Some (c3, None)
         \<and> send_q c3 = [0, 1] \<and> hd (send_q c3) = 0
         \<and> frames c3 ! 0 = hello_serialized
         \<and> run_send_step c3 WriteOk = Some (c4, Some hello_wire)
         \<and> send_q c4 = [1]"
    using a(5) f(2) by (intro exI[of _ e3] exI[of _ e4]) simp
  from c'(3) eq have blocked: "run_send_step conn_failed WriteOk = None"
    by simp
  from h1 h2 h3 h4 h5 w st f blocked a retry1 retry2 c'(5) show ?thesis
    by blast
qed

text \<open>
  Claim C10. When \<open>Frame.parse_from_socket\<close> returns a frame, it has consumed from the
  socket only the bytes reported consumed by the iterations in which the parse was
  still incomplete; the bytes of the last peeked chunk, the one that completed the
  frame, the frame's own bytes among them, are not consumed and the next call reads
  them again.

  In the model: the \<open>recv\<close> calls of the call are the log \<open>tr @ [Peeked chunk]\<close>. It
  replays against the parser: every peek of \<open>tr\<close> left the frame incomplete and was
  followed by a \<open>recv\<close> of the count the parser reported; the last call is the peek
  that completed the frame. The stream the socket had to give is the bytes those
  \<open>recv\<close> calls removed followed by the stream it still has to give; the last chunk
  heads the buffer, and the next peek returns it again.
\<close>

theorem parse_from_socket_leaves_final_chunk:
  assumes "parse_from_socket s = Some (Inr f, s')"
  shows "\<exists>tr chunk.
           log s' = log s @ tr @ [Peeked chunk]
           \<and> replay Start (tr @ [Peeked chunk]) f
           \<and> stream_of s = concat (map discarded_bytes tr) @ stream_of s'
           \<and> chunk = take 4096 (rbuf s')
           \<and> (\<forall>d s''. recv_peek s' 4096 = (Inr d, s'') \<longrightarrow> take (length chunk) d = chunk)"
proof -
  from assms have "pfs_loop Start s = Some (Inr f, s')"
    by (simp add: parse_from_socket_def)
  from pfs_loop_log[OF this] obtain tr chunk where
    l: "log s' = log s @ tr @ [Peeked chunk]" "replay Start (tr @ [Peeked chunk]) f"
       "chunk = take 4096 (rbuf s')"
       "stream_of s = concat (map discarded_bytes tr) @ stream_of s'"
    by blast
  have "take (length chunk) d = chunk" if "recv_peek s' 4096 = (Inr d, s'')" for d s''
    using recv_peek_again[OF that] l(3) by simp
  with l show ?thesis
    by blast
qed

text \<open>
  The frame \<open>SEND\<close> with the header \<open>k:v\<close> arriving in two pieces: the command line is
  consumed after the first peek, the header block and the NUL complete the frame and
  stay in the buffer.
\<close>

theorem parse_from_socket_leaves_final_chunk_witness:
  "parse_from_socket split_socket =
     Some (Inr kv_frame,
           \<lparr>rbuf = ''k:v'' @ [NL, NL, NUL], net = [],
            log = [Peeked (''SEND'' @ [NL]), Discarded 5 (''SEND'' @ [NL]),
                   Peeked (''k:v'' @ [NL, NL, NUL])]\<rparr>)
   \<and> (\<exists>tr chunk.
         [Peeked (''SEND'' @ [NL]), Discarded 5 (''SEND'' @ [NL]), Peeked (''k:v'' @ [NL, NL, NUL])]
           = tr @ [Peeked chunk]
         \<and> replay Start (tr @ [Peeked chunk]) kv_frame
         \<and> stream_of split_socket = concat (map discarded_bytes tr) @ ''k:v'' @ [NL, NL, NUL]
         \<and> chunk = ''k:v'' @ [NL, NL, NUL])"
proof -
  let ?s' = "\<lparr>rbuf = ''k:v'' @ [NL, NL, NUL], net = [],
            log = [Peeked (''SEND'' @ [NL]), Discarded 5 (''SEND'' @ [NL]),
                   Peeked (''k:v'' @ [NL, NL, NUL])]\<rparr>"
  from parse_from_socket_leaves_final_chunk[OF split_socket_parse]
  obtain tr chunk where
    "log ?s' = log split_socket @ tr @ [Peeked chunk]"
    "replay Start (tr @ [Peeked chunk]) kv_frame"
    "stream_of split_socket = concat (map discarded_bytes tr) @ stream_of ?s'"
    "chunk = take 4096 (rbuf ?s')"
    by blast
  then have "[Peeked (''SEND'' @ [NL]), Discarded 5 (''SEND'' @ [NL]), Peeked (''k:v'' @ [NL, NL, NUL])]
           = tr @ [Peeked chunk]
         \<and> replay Start (tr @ [Peeked chunk]) kv_frame
         \<and> stream_of split_socket = concat (map discarded_bytes tr) @ ''k:v'' @ [NL, NL, NUL]
         \<and> chunk = ''k:v'' @ [NL, NL, NUL]"
    by (simp add: split_socket_def stream_of_def)
  with split_socket_parse show ?thesis
    by blast
qed

end
